theory Spec2Isabelle
  imports Main "HOL-Library.Char_ord" "HOL-Library.Word"
begin

section \<open>Strings: the functions of package strings the interceptor calls\<close>

text \<open>
  A Go string is a byte sequence, here a \<open>string\<close>. \<open>strings.ToLower\<close> and
  \<open>strings.EqualFold\<close> work on bytes as long as the bytes are ASCII and on runes from the
  first byte above 127 on. The byte paths are defined here as the library has them. The
  rune paths decode UTF-8 and consult the Unicode tables of the Go library, which are
  not part of the repository: they are a parameter of the model, a value of the record
  \<open>unicode\<close>. \<open>mapToLower\<close> is \<open>strings.Map(unicode.ToLower, s)\<close>, the result of
  \<open>ToLower\<close> on a string that is not ASCII; \<open>equalFoldRunes\<close> is the rune loop of
  \<open>EqualFold\<close> on the rest of the two strings, entered at the first position where
  either byte is not ASCII.
\<close>

record unicode =
  mapToLower :: "string \<Rightarrow> string"
  equalFoldRunes :: "string \<Rightarrow> string \<Rightarrow> bool"

definition isASCIIByte :: "char \<Rightarrow> bool" where
  "isASCIIByte c = ((of_char c :: nat) < 128)"

definition isASCII :: "string \<Rightarrow> bool" where
  "isASCII s = list_all isASCIIByte s"

definition isUpperByte :: "char \<Rightarrow> bool" where
  "isUpperByte c = (CHR ''A'' \<le> c \<and> c \<le> CHR ''Z'')"

definition toLowerByte :: "char \<Rightarrow> char" where
  "toLowerByte c = (if isUpperByte c then char_of (of_char c + (32::nat)) else c)"

text \<open>The ASCII path of \<open>ToLower\<close>: the bytes \<open>A\<close> to \<open>Z\<close> are lowered.\<close>

definition asciiLower :: "string \<Rightarrow> string" where
  "asciiLower s = map toLowerByte s"

definition ToLower :: "unicode \<Rightarrow> string \<Rightarrow> string" where
  "ToLower uni s = (if isASCII s then asciiLower s else mapToLower uni s)"

text \<open>
  The inner test of \<open>EqualFold\<close>'s ASCII loop, after the two bytes were ordered so that
  \<open>sr < tr\<close>: \<open>'A' <= sr && sr <= 'Z' && tr == sr+'a'-'A'\<close>.
\<close>

definition foldPair :: "char \<Rightarrow> char \<Rightarrow> bool" where
  "foldPair sr tr = (isUpperByte sr \<and> tr = char_of (of_char sr + (32::nat)))"

text \<open>
  \<open>EqualFold\<close>: the loop runs while both strings have a byte left and goes to the rune
  loop when either byte is not ASCII; when a string ends, the result is whether both
  ended.
\<close>

fun EqualFold :: "unicode \<Rightarrow> string \<Rightarrow> string \<Rightarrow> bool" where
  "EqualFold uni [] [] = True"
| "EqualFold uni (sr # s) (tr # t) =
     (if \<not> isASCIIByte sr \<or> \<not> isASCIIByte tr then equalFoldRunes uni (sr # s) (tr # t)
      else if tr = sr then EqualFold uni s t
      else if (if tr < sr then foldPair tr sr else foldPair sr tr) then EqualFold uni s t
      else False)"
| "EqualFold uni [] (tr # t) = False"
| "EqualFold uni (sr # s) [] = False"

definition HasPrefix :: "string \<Rightarrow> string \<Rightarrow> bool" where
  "HasPrefix s pre = (length pre \<le> length s \<and> take (length pre) s = pre)"

definition TrimPrefix :: "string \<Rightarrow> string \<Rightarrow> string" where
  "TrimPrefix s pre = (if HasPrefix s pre then drop (length pre) s else s)"

text \<open>\<open>strings.Index\<close>: the index of the first instance of \<open>substr\<close> in \<open>s\<close>, or \<open>-1\<close>.\<close>

fun Index :: "string \<Rightarrow> string \<Rightarrow> int" where
  "Index [] substr = (if substr = [] then 0 else - 1)"
| "Index (c # s) substr =
     (if HasPrefix (c # s) substr then 0
      else (let i = Index s substr in if i < 0 then - 1 else i + 1))"

definition Contains :: "string \<Rightarrow> string \<Rightarrow> bool" where
  "Contains s substr = (0 \<le> Index s substr)"

text \<open>
  Slice expressions \<open>s[:hi]\<close> and \<open>s[lo:]\<close>. Go panics with a run-time error when the
  bound is negative or beyond the length.
\<close>

datatype panic = SliceBoundsOutOfRange | NilDereference

definition sliceTo :: "string \<Rightarrow> int \<Rightarrow> panic + string" where
  "sliceTo s hi =
     (if 0 \<le> hi \<and> hi \<le> int (length s) then Inr (take (nat hi) s)
      else Inl SliceBoundsOutOfRange)"

definition sliceFrom :: "string \<Rightarrow> int \<Rightarrow> panic + string" where
  "sliceFrom s lo =
     (if 0 \<le> lo \<and> lo \<le> int (length s) then Inr (drop (nat lo) s)
      else Inl SliceBoundsOutOfRange)"

section \<open>headers.go: redaction\<close>

fun matchesAny :: "unicode \<Rightarrow> string \<Rightarrow> string list \<Rightarrow> bool" where
  "matchesAny uni keyLower [] = False"
| "matchesAny uni keyLower (h # hs) =
     (if EqualFold uni keyLower h then True else matchesAny uni keyLower hs)"

text \<open>
  \<open>shouldRedactHeader\<close>: the loop over the configured names (\<open>matchesAny\<close>, which
  returns at the first match), then the built-in tests on the lowered key.
\<close>

definition shouldRedactHeader :: "unicode \<Rightarrow> string \<Rightarrow> string list \<Rightarrow> bool" where
  "shouldRedactHeader uni key redactHeaders =
     (let keyLower = ToLower uni key in
      if matchesAny uni keyLower redactHeaders then True
      else keyLower = ''authorization'' \<or>
           Contains keyLower ''token'' \<or>
           Contains keyLower ''secret'' \<or>
           Contains keyLower ''password'')"


section \<open>Status codes and structured log values\<close>

text \<open>
  \<open>connect.Code\<close> is a \<open>uint32\<close>; the named codes are the constants of the connect
  package. \<open>Code.String\<close> names the sixteen codes and prints any other value as
  \<open>code_N\<close>.
\<close>

type_synonym Code = "32 word"

definition CodeCanceled :: Code where "CodeCanceled = 1"
definition CodeUnknown :: Code where "CodeUnknown = 2"
definition CodeInvalidArgument :: Code where "CodeInvalidArgument = 3"
definition CodeDeadlineExceeded :: Code where "CodeDeadlineExceeded = 4"
definition CodeNotFound :: Code where "CodeNotFound = 5"
definition CodeAlreadyExists :: Code where "CodeAlreadyExists = 6"
definition CodePermissionDenied :: Code where "CodePermissionDenied = 7"
definition CodeResourceExhausted :: Code where "CodeResourceExhausted = 8"
definition CodeFailedPrecondition :: Code where "CodeFailedPrecondition = 9"
definition CodeAborted :: Code where "CodeAborted = 10"
definition CodeOutOfRange :: Code where "CodeOutOfRange = 11"
definition CodeUnimplemented :: Code where "CodeUnimplemented = 12"
definition CodeInternal :: Code where "CodeInternal = 13"
definition CodeUnavailable :: Code where "CodeUnavailable = 14"
definition CodeDataLoss :: Code where "CodeDataLoss = 15"
definition CodeUnauthenticated :: Code where "CodeUnauthenticated = 16"

fun decimal :: "nat \<Rightarrow> string" where
  "decimal n =
     (if n < 10 then [char_of (48 + n)]
      else decimal (n div 10) @ [char_of (48 + n mod 10)])"

definition codeString :: "Code \<Rightarrow> string" where
  "codeString c =
     (if c = CodeCanceled then ''canceled''
      else if c = CodeUnknown then ''unknown''
      else if c = CodeInvalidArgument then ''invalid_argument''
      else if c = CodeDeadlineExceeded then ''deadline_exceeded''
      else if c = CodeNotFound then ''not_found''
      else if c = CodeAlreadyExists then ''already_exists''
      else if c = CodePermissionDenied then ''permission_denied''
      else if c = CodeResourceExhausted then ''resource_exhausted''
      else if c = CodeFailedPrecondition then ''failed_precondition''
      else if c = CodeAborted then ''aborted''
      else if c = CodeOutOfRange then ''out_of_range''
      else if c = CodeUnimplemented then ''unimplemented''
      else if c = CodeInternal then ''internal''
      else if c = CodeUnavailable then ''unavailable''
      else if c = CodeDataLoss then ''data_loss''
      else if c = CodeUnauthenticated then ''unauthenticated''
      else ''code_'' @ decimal (unat c))"

text \<open>
  Message payloads, by the cases \<open>calculateSize\<close> distinguishes: nil, a protobuf
  message (with the size \<open>proto.Size\<close> reports for it), a byte slice, a string, a
  \<open>json.RawMessage\<close>, a value with a \<open>Size() int\<close> method (with what it returns), and
  any other value.
\<close>

datatype payload =
    NilPayload
  | ProtoMessage int
  | Bytes string
  | Str string
  | RawMessage string
  | Sized int
  | Opaque

fun calculateSize :: "payload \<Rightarrow> int" where
  "calculateSize NilPayload = 0"
| "calculateSize (ProtoMessage n) = n"
| "calculateSize (Bytes v) = int (length v)"
| "calculateSize (Str v) = int (length v)"
| "calculateSize (RawMessage v) = int (length v)"
| "calculateSize (Sized n) = n"
| "calculateSize Opaque = - 1"

text \<open>
  Addresses of heap objects. A \<open>*loggableError\<close> is one of the two package-level
  singletons or an object allocated by \<open>newLoggableError\<close>; the nil pointer is \<open>None\<close>
  of the option type.
\<close>

type_synonym addr = nat

datatype loggableErrorPtr = StaticCanceled | StaticDeadline | Allocated addr

text \<open>
  \<open>slog.Value\<close> by kind. \<open>KindAny\<close> holds what the interceptor passes to \<open>slog.Any\<close>:
  nothing (the zero \<open>Value\<close>), a payload, a header map (by address) or a
  \<open>*loggableError\<close>; \<open>KindOther\<close> stands for every remaining non-group kind.
\<close>

datatype anyValue =
    AnyNil
  | AnyPayload payload
  | AnyHeader addr
  | AnyLoggable "loggableErrorPtr option"

datatype Value =
    KindString string
  | KindInt64 int
  | KindDuration int
  | KindGroup "(string \<times> Value) list"
  | KindAny anyValue
  | KindOther string

type_synonym Attr = "string \<times> Value"

fun isEmptyGroup :: "Value \<Rightarrow> bool" where
  "isEmptyGroup (KindGroup as) = (as = [])"
| "isEmptyGroup (KindString v) = False"
| "isEmptyGroup (KindInt64 v) = False"
| "isEmptyGroup (KindDuration v) = False"
| "isEmptyGroup (KindAny v) = False"
| "isEmptyGroup (KindOther v) = False"

text \<open>
  \<open>slog.GroupValue\<close> builds a group from attributes and drops those whose value is an
  empty group.
\<close>

definition GroupValue :: "Attr list \<Rightarrow> Value" where
  "GroupValue as = KindGroup (filter (\<lambda>a. \<not> isEmptyGroup (snd a)) as)"


section \<open>Error values\<close>

text \<open>
  The error values the classifier distinguishes. A sentinel is one of the four
  package-level error variables the code compares against; \<open>New\<close> is an error with a
  text and no cause (\<open>errors.New\<close>); \<open>Wrapper\<close> is any error with a text whose
  \<open>Unwrap\<close> method returns one cause; \<open>Connect\<close> is a \<open>*connect.Error\<close> with its code
  and its underlying error (nil allowed); \<open>Valuer\<close> is an error that implements
  \<open>slog.LogValuer\<close>, with its text, the value its \<open>LogValue\<close> method returns and its
  cause, if any. Errors with several causes (\<open>errors.Join\<close>), errors with \<open>Is\<close> or
  \<open>As\<close> methods of their own, and nil pointers stored in an error interface are not
  modelled.
\<close>

datatype sentinel =
    ContextCanceled
  | ContextDeadlineExceeded
  | OsErrDeadlineExceeded
  | IoEOF

datatype err =
    Sentinel sentinel
  | New string
  | Wrapper string err
  | Connect Code "err option"
  | Valuer string Value "err option"

fun sentinelText :: "sentinel \<Rightarrow> string" where
  "sentinelText ContextCanceled = ''context canceled''"
| "sentinelText ContextDeadlineExceeded = ''context deadline exceeded''"
| "sentinelText OsErrDeadlineExceeded = ''i/o timeout''"
| "sentinelText IoEOF = ''EOF''"

text \<open>The \<open>Error()\<close> method: the text of an error.\<close>

fun ErrorText :: "err \<Rightarrow> string" where
  "ErrorText (Sentinel s) = sentinelText s"
| "ErrorText (New t) = t"
| "ErrorText (Wrapper t cause) = t"
| "ErrorText (Connect c underlying) =
     (let message = (case underlying of None \<Rightarrow> [] | Some e \<Rightarrow> ErrorText e)
      in if message = [] then codeString c else codeString c @ '': '' @ message)"
| "ErrorText (Valuer t v cause) = t"

text \<open>\<open>errors.Is(err, target)\<close> for a sentinel target: identity along the chain of causes.\<close>

fun Is :: "err \<Rightarrow> sentinel \<Rightarrow> bool" where
  "Is (Sentinel s) target = (s = target)"
| "Is (New t) target = False"
| "Is (Wrapper t cause) target = Is cause target"
| "Is (Connect c underlying) target =
     (case underlying of None \<Rightarrow> False | Some cause \<Rightarrow> Is cause target)"
| "Is (Valuer t v underlying) target =
     (case underlying of None \<Rightarrow> False | Some cause \<Rightarrow> Is cause target)"

text \<open>A \<open>*connect.Error\<close>: \<open>connect.NewError\<close> and the methods the code calls on it.\<close>

datatype connectError = ConnectError Code "err option"

definition NewError :: "Code \<Rightarrow> err option \<Rightarrow> connectError" where
  "NewError c underlying = ConnectError c underlying"

fun Code :: "connectError \<Rightarrow> Code" where
  "Code (ConnectError c underlying) = c"

fun Message :: "connectError \<Rightarrow> string" where
  "Message (ConnectError c underlying) =
     (case underlying of None \<Rightarrow> [] | Some e \<Rightarrow> ErrorText e)"

fun Unwrap :: "connectError \<Rightarrow> err option" where
  "Unwrap (ConnectError c underlying) = underlying"

fun asError :: "connectError \<Rightarrow> err" where
  "asError (ConnectError c underlying) = Connect c underlying"

text \<open>
  \<open>errors.As\<close> with a \<open>*connect.Error\<close> target and with a \<open>slog.LogValuer\<close> target: the
  first error of the chain of that kind.
\<close>

fun AsConnectError :: "err \<Rightarrow> connectError option" where
  "AsConnectError (Sentinel s) = None"
| "AsConnectError (New t) = None"
| "AsConnectError (Wrapper t cause) = AsConnectError cause"
| "AsConnectError (Connect c underlying) = Some (ConnectError c underlying)"
| "AsConnectError (Valuer t v underlying) =
     (case underlying of None \<Rightarrow> None | Some cause \<Rightarrow> AsConnectError cause)"

fun AsLogValuer :: "err \<Rightarrow> Value option" where
  "AsLogValuer (Sentinel s) = None"
| "AsLogValuer (New t) = None"
| "AsLogValuer (Wrapper t cause) = AsLogValuer cause"
| "AsLogValuer (Connect c underlying) =
     (case underlying of None \<Rightarrow> None | Some cause \<Rightarrow> AsLogValuer cause)"
| "AsLogValuer (Valuer t v underlying) = Some v"

section \<open>Program state\<close>

text \<open>
  The heap holds header maps (\<open>map[string][]string\<close>, a reference type) and
  \<open>loggableError\<close> objects, allocated at increasing addresses; \<open>records\<close> is the sequence
  of records the interceptor has handed to its logger. What the handler behind the
  logger does with a record (level filter, formatting, output) is outside the
  repository.
\<close>

type_synonym Header = "string \<rightharpoonup> string list"

record loggableError =
  Error :: connectError

datatype Level = LevelDebug | LevelInfo | LevelWarn | LevelError

record Record =
  level :: Level
  msg :: string
  scope :: "Attr list"
  attrs :: "Attr list"

record state =
  headers :: "addr \<rightharpoonup> Header"
  loggables :: "addr \<rightharpoonup> loggableError"
  nextAddr :: addr
  records :: "Record list"

text \<open>Every address from \<open>nextAddr\<close> on is free.\<close>

definition heap_ok :: "state \<Rightarrow> bool" where
  "heap_ok s = (\<forall>a. nextAddr s \<le> a \<longrightarrow> headers s a = None \<and> loggables s a = None)"

definition initial :: state where
  "initial = \<lparr>headers = Map.empty, loggables = Map.empty, nextAddr = 0, records = []\<rparr>"

text \<open>A map value as the code reads it: a nil map has no entries.\<close>

definition entries :: "state \<Rightarrow> addr option \<Rightarrow> Header" where
  "entries s m =
     (case m of None \<Rightarrow> Map.empty
      | Some a \<Rightarrow> (case headers s a of None \<Rightarrow> Map.empty | Some h \<Rightarrow> h))"

text \<open>
  \<open>redactHeadersMap\<close>: \<open>make\<close> allocates the result, the loop stores one entry for each
  key of \<open>headers\<close>, and the new map is returned. Nothing else is written. The first
  argument, here and in the functions that call this one, is the Unicode tables the
  string functions consult.
\<close>

definition redactHeadersMap ::
  "unicode \<Rightarrow> state \<Rightarrow> addr option \<Rightarrow> string list \<Rightarrow> state \<times> addr"
where
  "redactHeadersMap uni s hdrs redactHeaders =
     (let redacted = nextAddr s;
          source = entries s hdrs;
          filled = (\<lambda>k. case source k of
                      None \<Rightarrow> None
                    | Some v \<Rightarrow>
                        Some (if shouldRedactHeader uni k redactHeaders then [''[REDACTED]''] else v))
      in (s\<lparr>headers := (headers s)(redacted \<mapsto> filled), nextAddr := Suc redacted\<rparr>, redacted))"

section \<open>errors.go: classification\<close>

text \<open>
  The two package-level singletons \<open>errCanceled\<close> and \<open>errDeadline\<close>: the objects the
  pointers \<open>StaticCanceled\<close> and \<open>StaticDeadline\<close> refer to. No code of the package
  assigns to them.
\<close>

definition errCanceled :: loggableError where
  "errCanceled = \<lparr>Error = NewError CodeCanceled (Some (New ''request canceled''))\<rparr>"

definition errDeadline :: loggableError where
  "errDeadline = \<lparr>Error = NewError CodeDeadlineExceeded (Some (New ''request deadline exceeded''))\<rparr>"

fun deref :: "state \<Rightarrow> loggableErrorPtr \<Rightarrow> loggableError option" where
  "deref s StaticCanceled = Some errCanceled"
| "deref s StaticDeadline = Some errDeadline"
| "deref s (Allocated a) = loggables s a"

text \<open>\<open>&loggableError{Error: e}\<close>: a new object at the next free address.\<close>

definition allocLoggable :: "state \<Rightarrow> connectError \<Rightarrow> state \<times> loggableErrorPtr option" where
  "allocLoggable s e =
     (s\<lparr>loggables := (loggables s)(nextAddr s \<mapsto> \<lparr>Error = e\<rparr>), nextAddr := Suc (nextAddr s)\<rparr>,
      Some (Allocated (nextAddr s)))"

definition newLoggableError :: "state \<Rightarrow> err option \<Rightarrow> state \<times> loggableErrorPtr option" where
  "newLoggableError s err =
     (case err of
        None \<Rightarrow> (s, None)
      | Some e \<Rightarrow>
          (case AsConnectError e of
             Some connectErr \<Rightarrow> allocLoggable s connectErr
           | None \<Rightarrow>
               if Is e ContextCanceled then (s, Some StaticCanceled)
               else if Is e ContextDeadlineExceeded \<or> Is e OsErrDeadlineExceeded
                 then (s, Some StaticDeadline)
               else allocLoggable s (NewError CodeUnknown (Some e))))"

text \<open>
  The error \<open>LogValue\<close> takes the details from: what \<open>Unwrap\<close> returns, or the embedded
  \<open>*connect.Error\<close> itself when that is nil.
\<close>

definition origErr :: "loggableError \<Rightarrow> err" where
  "origErr le =
     (case Unwrap (Error le) of
        None \<Rightarrow> asError (Error le)
      | Some cause \<Rightarrow> cause)"

text \<open>
  \<open>LogValue\<close> on a \<open>*loggableError\<close>, given the object it points to (\<open>None\<close> for the nil
  pointer, for which the method returns the zero \<open>slog.Value\<close>).
\<close>

definition LogValue :: "loggableError option \<Rightarrow> Value" where
  "LogValue e =
     (case e of
        None \<Rightarrow> KindAny AnyNil
      | Some le \<Rightarrow>
          (let as = [(''code'', KindString (codeString (Code (Error le)))),
                     (''message'', KindString (Message (Error le)))];
               as' = (case AsLogValuer (origErr le) of
                        None \<Rightarrow> as
                      | Some logValue \<Rightarrow>
                          (case logValue of
                             KindGroup members \<Rightarrow> as @ members
                           | _ \<Rightarrow> as @ [(''details'', logValue)]))
           in GroupValue as'))"

text \<open>The method call \<open>connErr.Code()\<close> through the pointer.\<close>

definition codeOf :: "state \<Rightarrow> loggableErrorPtr option \<Rightarrow> panic + Code" where
  "codeOf s p =
     (case p of
        None \<Rightarrow> Inl NilDereference
      | Some q \<Rightarrow> (case deref s q of None \<Rightarrow> Inl NilDereference | Some le \<Rightarrow> Inr (Code (Error le))))"


section \<open>The logger\<close>

text \<open>
  A \<open>*slog.Logger\<close>: the attributes added with \<open>With\<close>, and whether its handler is
  enabled at debug level. \<open>emit\<close> is a call of \<open>Debug\<close>, \<open>Info\<close>, \<open>Warn\<close> or \<open>Error\<close>: it
  hands one record to the logger.
\<close>

record Logger =
  withAttrs :: "Attr list"
  enabledDebug :: bool

definition With :: "Logger \<Rightarrow> Attr list \<Rightarrow> Logger" where
  "With l as = l\<lparr>withAttrs := withAttrs l @ as\<rparr>"

definition emit :: "state \<Rightarrow> Logger \<Rightarrow> Level \<Rightarrow> string \<Rightarrow> Attr list \<Rightarrow> state" where
  "emit s l lv m as =
     s\<lparr>records := records s @ [\<lparr>level = lv, msg = m, scope = withAttrs l, attrs = as\<rparr>]\<rparr>"

section \<open>stream.go: the counting stream wrapper\<close>

text \<open>
  \<open>loggedStreamConn\<close>: the counters are Go \<open>int\<close>s, 64 bits wide on the usual targets.
  The embedded connection is the delegate; what it answers to a call is an argument of
  \<open>Send\<close> and \<open>Receive\<close> here (\<open>None\<close> for a nil error).
\<close>

record loggedStreamConn =
  connLogger :: Logger
  sentCount :: "64 word"
  receivedCount :: "64 word"
  debugEnabled :: bool

definition newLoggedStreamConn :: "Logger \<Rightarrow> loggedStreamConn" where
  "newLoggedStreamConn l =
     \<lparr>connLogger = l, sentCount = 0, receivedCount = 0, debugEnabled = enabledDebug l\<rparr>"

definition Send ::
  "state \<Rightarrow> loggedStreamConn \<Rightarrow> payload \<Rightarrow> err option \<Rightarrow> state \<times> loggedStreamConn \<times> err option"
where
  "Send s c m delegate =
     (case delegate of
        Some e \<Rightarrow> (s, c, Some e)
      | None \<Rightarrow>
          (let c' = c\<lparr>sentCount := sentCount c + 1\<rparr>;
               s' = (if debugEnabled c'
                     then emit s (connLogger c') LevelDebug ''stream message sent''
                            [(''number'', KindInt64 (sint (sentCount c'))),
                             (''size'', KindInt64 (calculateSize m)),
                             (''response'', KindAny (AnyPayload m))]
                     else s)
           in (s', c', None)))"

definition Receive ::
  "state \<Rightarrow> loggedStreamConn \<Rightarrow> payload \<Rightarrow> err option \<Rightarrow> state \<times> loggedStreamConn \<times> err option"
where
  "Receive s c m delegate =
     (case delegate of
        Some e \<Rightarrow> (s, c, Some e)
      | None \<Rightarrow>
          (let c' = c\<lparr>receivedCount := receivedCount c + 1\<rparr>;
               s' = (if debugEnabled c'
                     then emit s (connLogger c') LevelDebug ''stream message received''
                            [(''number'', KindInt64 (sint (receivedCount c'))),
                             (''size'', KindInt64 (calculateSize m)),
                             (''receive'', KindAny (AnyPayload m))]
                     else s)
           in (s', c', None)))"

text \<open>
  One run of a streaming handler, as the wrapper sees it: the calls the handler makes on
  the wrapped connection, each with the message and with what the underlying connection
  answers, and then the error the handler returns.
\<close>

datatype streamCall = CallSend payload "err option" | CallReceive payload "err option"

fun runCalls :: "state \<Rightarrow> loggedStreamConn \<Rightarrow> streamCall list \<Rightarrow> state \<times> loggedStreamConn" where
  "runCalls s c [] = (s, c)"
| "runCalls s c (CallSend m delegate # cs) =
     (case Send s c m delegate of (s', c', e) \<Rightarrow> runCalls s' c' cs)"
| "runCalls s c (CallReceive m delegate # cs) =
     (case Receive s c m delegate of (s', c', e) \<Rightarrow> runCalls s' c' cs)"

section \<open>interceptor.go\<close>

text \<open>
  The source file holds the interceptor twice, as \<open>LoggingInterceptor\<close> and as
  \<open>loggingInterceptor\<close>. The two differ in what is not modelled here (the second
  passes the context to the log calls and replaces a nil logger by a discarding one);
  the definitions follow the first. A request, a response and a stream connection are
  the values their accessor methods return; header maps are held by address. The
  logger of an interceptor is a logger, not the nil pointer: the constructor's default
  is \<open>slog.Default()\<close>, and the second copy never stores nil.
\<close>

record Spec =
  Procedure :: string

record Peer =
  Addr :: string
  Protocol :: string

record AnyRequest =
  reqSpec :: Spec
  reqPeer :: Peer
  reqHeader :: "addr option"
  reqAny :: payload

record AnyResponse =
  resHeader :: "addr option"
  resAny :: payload

record StreamingHandlerConn =
  connSpec :: Spec
  connPeer :: Peer
  RequestHeader :: "addr option"

record 'ctx LoggingInterceptor =
  logger :: Logger
  redactHeaders :: "string list"
  contextLogFn :: "('ctx \<Rightarrow> Attr list) option"

text \<open>
  \<open>initRequestLogger\<close>. The two slice expressions are evaluated left to right; each
  panics when its bound is out of range.
\<close>

definition initRequestLogger ::
  "'ctx LoggingInterceptor \<Rightarrow> 'ctx \<Rightarrow> Spec \<Rightarrow> Peer \<Rightarrow> panic + Logger"
where
  "initRequestLogger i ctx spec peer =
     (let procedure = TrimPrefix (Procedure spec) ''/'';
          idx = Index procedure ''/''
      in case sliceTo procedure idx of
           Inl p \<Rightarrow> Inl p
         | Inr service \<Rightarrow>
             (case sliceFrom procedure (idx + 1) of
                Inl p \<Rightarrow> Inl p
              | Inr method \<Rightarrow>
                  (let l = With (logger i)
                             [(''service'', KindString service),
                              (''method'', KindString method),
                              (''protocol'', KindString (Protocol peer)),
                              (''addr'', KindString (Addr peer))]
                   in Inr (case contextLogFn i of
                             None \<Rightarrow> l
                           | Some fn \<Rightarrow> fold (\<lambda>attr l'. With l' [attr]) (fn ctx) l))))"

text \<open>
  The debug block the wrappers run before the call and, in \<open>WrapUnary\<close>, after a
  successful one: when the logger is enabled at debug level, the headers are redacted
  into a new map and one debug record with the attributes \<open>first\<close> and \<open>headers\<close> is
  emitted.
\<close>

definition logStarted ::
  "unicode \<Rightarrow> state \<Rightarrow> Logger \<Rightarrow> string list \<Rightarrow> string \<Rightarrow> Attr list \<Rightarrow> addr option \<Rightarrow> state"
where
  "logStarted uni s l names m first hdrs =
     (if enabledDebug l
      then (case redactHeadersMap uni s hdrs names of
              (s', redacted) \<Rightarrow>
                emit s' l LevelDebug m (first @ [(''headers'', KindAny (AnyHeader redacted))]))
      else s)"

text \<open>
  The failure branch shared by both wrappers: classify, add the \<open>error\<close> attribute, and
  log at warn level when the code is below \<open>CodeInternal\<close>, at error level otherwise.
\<close>

definition logFailed ::
  "state \<Rightarrow> Logger \<Rightarrow> string \<Rightarrow> Attr list \<Rightarrow> err \<Rightarrow> panic + state"
where
  "logFailed s l m logAttrs e =
     (case newLoggableError s (Some e) of
        (s', connErr) \<Rightarrow>
          (let logAttrs' = logAttrs @ [(''error'', KindAny (AnyLoggable connErr))]
           in case codeOf s' connErr of
                Inl p \<Rightarrow> Inl p
              | Inr c \<Rightarrow>
                  Inr (emit s' l (if c < CodeInternal then LevelWarn else LevelError) m logAttrs')))"

text \<open>
  \<open>WrapUnary\<close>, applied to the handler \<open>next\<close> and then to a request. \<open>elapsed\<close> is what
  \<open>time.Since(start)\<close> reads after the handler returned. The handler returns a response
  (nil allowed) and an error (nil allowed).
\<close>

definition WrapUnary ::
  "unicode \<Rightarrow> 'ctx LoggingInterceptor \<Rightarrow> (AnyRequest \<Rightarrow> AnyResponse option \<times> err option) \<Rightarrow> int \<Rightarrow>
   state \<Rightarrow> 'ctx \<Rightarrow> AnyRequest \<Rightarrow> panic + (state \<times> AnyResponse option \<times> err option)"
where
  "WrapUnary uni i next elapsed s ctx req =
     (case initRequestLogger i ctx (reqSpec req) (reqPeer req) of
        Inl p \<Rightarrow> Inl p
      | Inr l \<Rightarrow>
          (let s1 = logStarted uni s l (redactHeaders i) ''request started''
                      [(''request'', KindAny (AnyPayload (reqAny req)))] (reqHeader req);
               (res, err) = next req;
               logAttrs = [(''duration'', KindDuration elapsed)];
               reqSize = calculateSize (reqAny req);
               logAttrs = (if 0 \<le> reqSize
                           then logAttrs @ [(''request_size'', KindInt64 reqSize)]
                           else logAttrs)
           in case err of
                Some e \<Rightarrow>
                  (case logFailed s1 l ''request failed'' logAttrs e of
                     Inl p \<Rightarrow> Inl p
                   | Inr s2 \<Rightarrow> Inr (s2, res, err))
              | None \<Rightarrow>
                  (case res of
                     None \<Rightarrow> Inl NilDereference
                   | Some r \<Rightarrow>
                       (let s2 = logStarted uni s1 l (redactHeaders i) ''response completed''
                                   [(''response'', KindAny (AnyPayload (resAny r)))] (resHeader r);
                            resSize = calculateSize (resAny r);
                            logAttrs = (if 0 \<le> resSize
                                        then logAttrs @ [(''response_size'', KindInt64 resSize)]
                                        else logAttrs)
                        in Inr (emit s2 l LevelInfo ''request completed'' logAttrs, res, err)))))"

text \<open>
  \<open>WrapStreamingHandler\<close>, applied to the handler and then to a connection. The handler
  is given by the run it makes on this connection.
\<close>

definition WrapStreamingHandler ::
  "unicode \<Rightarrow> 'ctx LoggingInterceptor \<Rightarrow> (StreamingHandlerConn \<Rightarrow> streamCall list \<times> err option) \<Rightarrow> int \<Rightarrow>
   state \<Rightarrow> 'ctx \<Rightarrow> StreamingHandlerConn \<Rightarrow> panic + (state \<times> err option)"
where
  "WrapStreamingHandler uni i next elapsed s ctx conn =
     (case initRequestLogger i ctx (connSpec conn) (connPeer conn) of
        Inl p \<Rightarrow> Inl p
      | Inr l \<Rightarrow>
          (let s1 = logStarted uni s l (redactHeaders i) ''stream started'' [] (RequestHeader conn);
               wrappedConn = newLoggedStreamConn l;
               (calls, err) = next conn;
               (s2, wrappedConn) = runCalls s1 wrappedConn calls;
               logAttrs = [(''messages'',
                            GroupValue [(''sent'', KindInt64 (sint (sentCount wrappedConn))),
                                        (''received'', KindInt64 (sint (receivedCount wrappedConn)))]),
                           (''duration'', KindDuration elapsed)]
           in case err of
                None \<Rightarrow> Inr (emit s2 l LevelInfo ''stream completed'' logAttrs, err)
              | Some e \<Rightarrow>
                  if \<not> Is e IoEOF
                  then (case logFailed s2 l ''stream failed'' logAttrs e of
                          Inl p \<Rightarrow> Inl p
                        | Inr s3 \<Rightarrow> Inr (s3, err))
                  else Inr (emit s2 l LevelInfo ''stream completed'' logAttrs, err)))"

section \<open>Notions used in the statements\<close>

text \<open>
  A procedure identifier is well formed when a separator is left after one leading
  separator is stripped, as in \<open>/service/method\<close>.
\<close>

definition wellFormed :: "string \<Rightarrow> bool" where
  "wellFormed procedure = (CHR ''/'' \<in> set (TrimPrefix procedure ''/''))"

text \<open>The four attributes \<open>initRequestLogger\<close> adds to the logger.\<close>

definition requestAttrs :: "string \<Rightarrow> string \<Rightarrow> Peer \<Rightarrow> Attr list" where
  "requestAttrs service method peer =
     [(''service'', KindString service), (''method'', KindString method),
      (''protocol'', KindString (Protocol peer)), (''addr'', KindString (Addr peer))]"

text \<open>
  The code of the object \<open>newLoggableError\<close> returns for an error, by the branch taken
  (lemma \<open>codeOf_newLoggableError\<close> below).
\<close>

definition classifiedCode :: "err \<Rightarrow> Code" where
  "classifiedCode e =
     (case AsConnectError e of
        Some connectErr \<Rightarrow> Code connectErr
      | None \<Rightarrow>
          if Is e ContextCanceled then CodeCanceled
          else if Is e ContextDeadlineExceeded \<or> Is e OsErrDeadlineExceeded
            then CodeDeadlineExceeded
          else CodeUnknown)"

text \<open>The two attributes every structured form starts with.\<close>

definition baseAttrs :: "loggableError \<Rightarrow> Attr list" where
  "baseAttrs le =
     [(''code'', KindString (codeString (Code (Error le)))),
      (''message'', KindString (Message (Error le)))]"

text \<open>The calls of a run whose delegate succeeded, and their numbers.\<close>

fun okSend :: "streamCall \<Rightarrow> bool" where
  "okSend (CallSend m None) = True"
| "okSend (CallSend m (Some e)) = False"
| "okSend (CallReceive m delegate) = False"

fun okReceive :: "streamCall \<Rightarrow> bool" where
  "okReceive (CallReceive m None) = True"
| "okReceive (CallReceive m (Some e)) = False"
| "okReceive (CallSend m delegate) = False"

definition okSends :: "streamCall list \<Rightarrow> nat" where
  "okSends calls = length (filter okSend calls)"

definition okReceives :: "streamCall list \<Rightarrow> nat" where
  "okReceives calls = length (filter okReceive calls)"

text \<open>
  \<open>preserves s s'\<close>: every object allocated in \<open>s\<close> is the same in \<open>s'\<close>. \<open>sizeAttrs\<close>
  is the attribute a wrapper adds for a payload whose size is known, \<open>streamAttrs\<close> the
  two attributes of every terminal record of a stream.
\<close>

definition preserves :: "state \<Rightarrow> state \<Rightarrow> bool" where
  "preserves s s' =
     (nextAddr s \<le> nextAddr s' \<and>
      (\<forall>a. a < nextAddr s \<longrightarrow> headers s' a = headers s a \<and> loggables s' a = loggables s a))"

definition sizeAttrs :: "string \<Rightarrow> payload \<Rightarrow> Attr list" where
  "sizeAttrs k m = (if 0 \<le> calculateSize m then [(k, KindInt64 (calculateSize m))] else [])"

definition streamAttrs :: "streamCall list \<Rightarrow> int \<Rightarrow> Attr list" where
  "streamAttrs calls elapsed =
     [(''messages'',
       KindGroup [(''sent'', KindInt64 (sint (of_nat (okSends calls) :: 64 word))),
                  (''received'', KindInt64 (sint (of_nat (okReceives calls) :: 64 word)))]),
      (''duration'', KindDuration elapsed)]"

section \<open>Example inputs\<close>

text \<open>
  A stand-in for the Unicode tables (the example inputs are ASCII, so nothing consults
  it), a heap with one header map at address 0, two interceptors (debug logging on, with a
  context hook; debug logging off), a unary request and response, a stream connection,
  a run of a streaming handler, and the \<open>detailedError\<close> of the package's tests.
\<close>

definition exampleUnicode :: unicode where
  "exampleUnicode = \<lparr>mapToLower = (\<lambda>s. s), equalFoldRunes = (\<lambda>s t. s = t)\<rparr>"

definition exampleHeader :: Header where
  "exampleHeader =
     [''Authorization'' \<mapsto> [''Bearer abc''],
      ''X-My-Token'' \<mapsto> [''t1'', ''t2''],
      ''Accept'' \<mapsto> [''text/plain'']]"

definition exampleState :: state where
  "exampleState =
     \<lparr>headers = [0 \<mapsto> exampleHeader], loggables = Map.empty, nextAddr = 1, records = []\<rparr>"

definition exampleInterceptor :: "unit LoggingInterceptor" where
  "exampleInterceptor =
     \<lparr>logger = \<lparr>withAttrs = [], enabledDebug = True\<rparr>,
      redactHeaders = [''authorization'', ''token''],
      contextLogFn = Some (\<lambda>ctx. [(''trace_id'', KindString ''123'')])\<rparr>"

definition quietInterceptor :: "unit LoggingInterceptor" where
  "quietInterceptor =
     \<lparr>logger = \<lparr>withAttrs = [], enabledDebug = False\<rparr>,
      redactHeaders = [''authorization'', ''token''],
      contextLogFn = None\<rparr>"

definition examplePeer :: Peer where
  "examplePeer = \<lparr>Addr = ''10.0.0.7:4711'', Protocol = ''grpc''\<rparr>"

definition exampleRequest :: AnyRequest where
  "exampleRequest =
     \<lparr>reqSpec = \<lparr>Procedure = ''/acme.PingService/Ping''\<rparr>, reqPeer = examplePeer,
      reqHeader = Some 0, reqAny = Str ''ping''\<rparr>"

definition exampleResponse :: AnyResponse where
  "exampleResponse = \<lparr>resHeader = None, resAny = Str ''pong!''\<rparr>"

definition exampleConn :: StreamingHandlerConn where
  "exampleConn =
     \<lparr>connSpec = \<lparr>Procedure = ''/acme.PingService/Stream''\<rparr>, connPeer = examplePeer,
      RequestHeader = Some 0\<rparr>"

definition exampleCalls :: "streamCall list" where
  "exampleCalls =
     [CallReceive (Str ''ping 1'') None,
      CallSend (Str ''pong 1'') None,
      CallSend (Str ''pong 2'') (Some (New ''write: broken pipe'')),
      CallSend (Str ''pong 2'') None,
      CallReceive (Str ''ping 2'') None,
      CallSend (Str ''pong 3'') None,
      CallReceive NilPayload (Some (Sentinel IoEOF))]"

definition detailedError :: "string \<Rightarrow> string \<Rightarrow> err" where
  "detailedError field reason =
     Valuer ''validation error''
       (GroupValue [(''field'', KindString field), (''reason'', KindString reason)]) None"

section \<open>Properties: strings and redaction\<close>












lemma matchesAny_iff: "matchesAny uni k hs \<longleftrightarrow> (\<exists>h \<in> set hs. EqualFold uni k h)"
  by (induction hs) auto

lemma HasPrefix_iff: "HasPrefix s pre \<longleftrightarrow> (\<exists>ss. s = pre @ ss)"
proof
  assume "HasPrefix s pre"
  then have "s = pre @ drop (length pre) s"
    by (metis HasPrefix_def append_take_drop_id)
  then show "\<exists>ss. s = pre @ ss" ..
next
  assume "\<exists>ss. s = pre @ ss"
  then show "HasPrefix s pre" by (auto simp: HasPrefix_def)
qed

lemma Index_ge_minus_one: "- 1 \<le> Index s sub"
  by (induction s) (auto simp: Let_def)

lemma Index_found_iff: "0 \<le> Index s sub \<longleftrightarrow> (\<exists>ps ss. s = ps @ sub @ ss)"
proof (induction s)
  case Nil
  then show ?case by auto
next
  case (Cons c s)
  show ?case
  proof (cases "HasPrefix (c # s) sub")
    case True
    then obtain ss where "c # s = [] @ sub @ ss" by (auto simp: HasPrefix_iff)
    then have "\<exists>ps ss. c # s = ps @ sub @ ss" by blast
    with True show ?thesis by simp
  next
    case False
    have "(\<exists>ps ss. c # s = ps @ sub @ ss) \<longleftrightarrow> (\<exists>ps ss. s = ps @ sub @ ss)"
    proof
      assume "\<exists>ps ss. c # s = ps @ sub @ ss"
      then obtain ps ss where e: "c # s = ps @ sub @ ss" by blast
      with False have "ps \<noteq> []" by (auto simp: HasPrefix_iff)
      with e have "s = tl ps @ sub @ ss" by (cases ps) auto
      then show "\<exists>ps ss. s = ps @ sub @ ss" by blast
    next
      assume "\<exists>ps ss. s = ps @ sub @ ss"
      then obtain ps ss where "s = ps @ sub @ ss" by blast
      then have "c # s = (c # ps) @ sub @ ss" by simp
      then show "\<exists>ps ss. c # s = ps @ sub @ ss" by blast
    qed
    moreover have "0 \<le> Index (c # s) sub \<longleftrightarrow> 0 \<le> Index s sub"
      using False by (simp add: Let_def)
    ultimately show ?thesis using Cons.IH by simp
  qed
qed

lemma Contains_iff: "Contains s sub \<longleftrightarrow> (\<exists>ps ss. s = ps @ sub @ ss)"
  by (simp add: Contains_def Index_found_iff)

lemma shouldRedactHeader_iff:
  "shouldRedactHeader uni k S \<longleftrightarrow>
     (\<exists>h \<in> set S. EqualFold uni (ToLower uni k) h) \<or>
     ToLower uni k = ''authorization'' \<or>
     (\<exists>ps ss. ToLower uni k = ps @ ''token'' @ ss) \<or>
     (\<exists>ps ss. ToLower uni k = ps @ ''secret'' @ ss) \<or>
     (\<exists>ps ss. ToLower uni k = ps @ ''password'' @ ss)"
  unfolding shouldRedactHeader_def Let_def matchesAny_iff Contains_iff
  by auto


text \<open>
  A key that is not ASCII is judged by what the library's rune path makes of it: when
  \<open>strings.ToLower\<close> turns it into a string containing \<open>token\<close>, it is redacted.
\<close>

lemma shouldRedactHeader_lowered:
  "\<not> isASCII k \<Longrightarrow> mapToLower uni k = ps @ ''token'' @ ss \<Longrightarrow> shouldRedactHeader uni k S"
  unfolding shouldRedactHeader_iff by (auto simp: ToLower_def)

text \<open>
  \<open>heap_ok\<close> is an invariant: it holds initially and every operation that allocates or
  logs keeps it.
\<close>

lemma heap_ok_initial: "heap_ok initial"
  by (simp add: heap_ok_def initial_def)

lemma heap_ok_redactHeadersMap:
  "heap_ok s \<Longrightarrow> redactHeadersMap uni s hdrs names = (s', r) \<Longrightarrow> heap_ok s'"
  by (auto simp: heap_ok_def redactHeadersMap_def Let_def)

lemma heap_ok_newLoggableError:
  "heap_ok s \<Longrightarrow> newLoggableError s err = (s', p) \<Longrightarrow> heap_ok s'"
  by (auto simp: heap_ok_def newLoggableError_def allocLoggable_def
      split: option.splits if_splits)

lemma heap_ok_emit: "heap_ok s \<Longrightarrow> heap_ok (emit s l lv m as)"
  by (simp add: heap_ok_def emit_def)



section \<open>Properties: the request logger\<close>

lemma HasPrefix_slash: "HasPrefix (c # s) ''/'' \<longleftrightarrow> c = CHR ''/''"
  by (auto simp: HasPrefix_def)

lemma Index_slash_absent: "CHR ''/'' \<notin> set s \<Longrightarrow> Index s ''/'' = - 1"
  by (induction s) (auto simp: HasPrefix_slash Let_def)

lemma Index_slash_first:
  "CHR ''/'' \<notin> set service \<Longrightarrow> Index (service @ CHR ''/'' # method) ''/'' = int (length service)"
  by (induction service) (auto simp: HasPrefix_slash Let_def)

lemma TrimPrefix_slash: "TrimPrefix (CHR ''/'' # s) ''/'' = s"
  by (simp add: TrimPrefix_def HasPrefix_def)

lemma withAttrs_fold_With:
  "fold (\<lambda>attr l'. With l' [attr]) as l = l\<lparr>withAttrs := withAttrs l @ as\<rparr>"
  by (induction as arbitrary: l) (auto simp: With_def)

lemma initRequestLogger_malformed:
  assumes "CHR ''/'' \<notin> set (TrimPrefix (Procedure spec) ''/'')"
  shows "initRequestLogger i ctx spec peer = Inl SliceBoundsOutOfRange"
  using assms by (simp add: initRequestLogger_def Let_def Index_slash_absent sliceTo_def)

lemma initRequestLogger_split:
  assumes "TrimPrefix (Procedure spec) ''/'' = service @ ''/'' @ rpc"
    and "CHR ''/'' \<notin> set service"
  shows "initRequestLogger i ctx spec peer =
     Inr ((logger i)\<lparr>withAttrs := withAttrs (logger i) @ requestAttrs service rpc peer @
            (case contextLogFn i of None \<Rightarrow> [] | Some fn \<Rightarrow> fn ctx)\<rparr>)"
proof -
  define procedure where "procedure = service @ CHR ''/'' # rpc"
  have trim: "TrimPrefix (Procedure spec) ''/'' = procedure"
    using assms(1) by (simp add: procedure_def)
  have idx: "Index procedure ''/'' = int (length service)"
    using assms(2) by (simp add: Index_slash_first procedure_def)
  have service: "sliceTo procedure (int (length service)) = Inr service"
    by (simp add: sliceTo_def procedure_def)
  have "nat (int (length service) + 1) = Suc (length service)"
    by simp
  then have rest: "sliceFrom procedure (int (length service) + 1) = Inr rpc"
    by (simp add: sliceFrom_def procedure_def)
  show ?thesis
    unfolding initRequestLogger_def Let_def trim idx service rest withAttrs_fold_With
    by (simp add: With_def requestAttrs_def split: option.split)
qed

lemma initRequestLogger_wellformed:
  assumes "Procedure spec = ''/'' @ service @ ''/'' @ rpc" and "CHR ''/'' \<notin> set service"
  shows "initRequestLogger i ctx spec peer =
     Inr ((logger i)\<lparr>withAttrs := withAttrs (logger i) @ requestAttrs service rpc peer @
            (case contextLogFn i of None \<Rightarrow> [] | Some fn \<Rightarrow> fn ctx)\<rparr>)"
proof (rule initRequestLogger_split)
  show "TrimPrefix (Procedure spec) ''/'' = service @ ''/'' @ rpc"
    using assms(1) by (simp add: TrimPrefix_slash)
  show "CHR ''/'' \<notin> set service" by (rule assms(2))
qed

text \<open>
  Claim C9. When the procedure identifier, after one leading \<open>/\<close> is stripped, has no
  \<open>/\<close>, \<open>strings.Index\<close> returns \<open>-1\<close> and the slice expression \<open>procedure[:idx]\<close>
  panics: \<open>initRequestLogger\<close> faults with a slice-bounds run-time error. When the
  identifier is \<open>/service/method\<close>, with no \<open>/\<close> in the service, the function returns
  a logger: the service is the part before the first \<open>/\<close> of the stripped identifier,
  the method is everything after it, and the logger carries the four request attributes
  followed by the attributes of the context hook.
\<close>

theorem initRequestLogger_procedure:
  "(CHR ''/'' \<notin> set (TrimPrefix (Procedure spec) ''/'') \<longrightarrow>
      initRequestLogger i ctx spec peer = Inl SliceBoundsOutOfRange) \<and>
   (Procedure spec = ''/'' @ service @ ''/'' @ rpc \<and> CHR ''/'' \<notin> set service \<longrightarrow>
      (\<exists>l. initRequestLogger i ctx spec peer = Inr l \<and>
           enabledDebug l = enabledDebug (logger i) \<and>
           withAttrs l =
             withAttrs (logger i) @
             [(''service'', KindString service), (''method'', KindString rpc),
              (''protocol'', KindString (Protocol peer)), (''addr'', KindString (Addr peer))] @
             (case contextLogFn i of None \<Rightarrow> [] | Some fn \<Rightarrow> fn ctx)))"
proof (intro conjI impI)
  assume "CHR ''/'' \<notin> set (TrimPrefix (Procedure spec) ''/'')"
  then show "initRequestLogger i ctx spec peer = Inl SliceBoundsOutOfRange"
    by (rule initRequestLogger_malformed)
next
  assume "Procedure spec = ''/'' @ service @ ''/'' @ rpc \<and> CHR ''/'' \<notin> set service"
  then have "initRequestLogger i ctx spec peer =
     Inr ((logger i)\<lparr>withAttrs := withAttrs (logger i) @ requestAttrs service rpc peer @
            (case contextLogFn i of None \<Rightarrow> [] | Some fn \<Rightarrow> fn ctx)\<rparr>)"
    by (auto intro: initRequestLogger_wellformed)
  then show "\<exists>l. initRequestLogger i ctx spec peer = Inr l \<and>
           enabledDebug l = enabledDebug (logger i) \<and>
           withAttrs l =
             withAttrs (logger i) @
             [(''service'', KindString service), (''method'', KindString rpc),
              (''protocol'', KindString (Protocol peer)), (''addr'', KindString (Addr peer))] @
             (case contextLogFn i of None \<Rightarrow> [] | Some fn \<Rightarrow> fn ctx)"
    by (simp add: requestAttrs_def)
qed

text \<open>The theorem at \<open>/noslash\<close> and at \<open>/acme.PingService/Ping\<close>.\<close>

theorem initRequestLogger_procedure_witness:
  "CHR ''/'' \<notin> set (TrimPrefix ''/noslash'' ''/'') \<and>
   initRequestLogger exampleInterceptor () \<lparr>Procedure = ''/noslash''\<rparr> examplePeer =
     Inl SliceBoundsOutOfRange \<and>
   ''/acme.PingService/Ping'' = ''/'' @ ''acme.PingService'' @ ''/'' @ ''Ping'' \<and>
   CHR ''/'' \<notin> set ''acme.PingService'' \<and>
   (\<exists>l. initRequestLogger exampleInterceptor () \<lparr>Procedure = ''/acme.PingService/Ping''\<rparr>
          examplePeer = Inr l \<and>
        withAttrs l =
          [(''service'', KindString ''acme.PingService''), (''method'', KindString ''Ping''),
           (''protocol'', KindString ''grpc''), (''addr'', KindString ''10.0.0.7:4711''),
           (''trace_id'', KindString ''123'')])"
proof -
  have a: "CHR ''/'' \<notin> set (TrimPrefix ''/noslash'' ''/'')"
    by (simp add: TrimPrefix_def HasPrefix_def)
  have b: "CHR ''/'' \<notin> set ''acme.PingService''"
    by simp
  have c: "''/acme.PingService/Ping'' = ''/'' @ ''acme.PingService'' @ ''/'' @ ''Ping''"
    by simp
  note t1 = initRequestLogger_procedure
    [where spec = "\<lparr>Procedure = ''/noslash''\<rparr>" and i = exampleInterceptor and ctx = "()"
       and peer = examplePeer]
  note t2 = initRequestLogger_procedure
    [where spec = "\<lparr>Procedure = ''/acme.PingService/Ping''\<rparr>"
       and service = "''acme.PingService''" and rpc = "''Ping''"
       and i = exampleInterceptor and ctx = "()" and peer = examplePeer]
  have "initRequestLogger exampleInterceptor () \<lparr>Procedure = ''/noslash''\<rparr> examplePeer =
     Inl SliceBoundsOutOfRange"
    using t1 a by simp
  moreover have "\<exists>l. initRequestLogger exampleInterceptor () \<lparr>Procedure = ''/acme.PingService/Ping''\<rparr>
          examplePeer = Inr l \<and>
        withAttrs l =
          [(''service'', KindString ''acme.PingService''), (''method'', KindString ''Ping''),
           (''protocol'', KindString ''grpc''), (''addr'', KindString ''10.0.0.7:4711''),
           (''trace_id'', KindString ''123'')]"
    using t2 [THEN conjunct2] b by (auto simp: exampleInterceptor_def examplePeer_def)
  ultimately show ?thesis using a b c by blast
qed

section \<open>Properties: classification\<close>

lemma deref_allocLoggable:
  "allocLoggable s ce = (s', p) \<Longrightarrow>
     p = Some (Allocated (nextAddr s)) \<and> deref s' (Allocated (nextAddr s)) = Some \<lparr>Error = ce\<rparr>"
  by (auto simp: allocLoggable_def)

lemma allocLoggable_frame:
  "allocLoggable s ce = (s', p) \<Longrightarrow>
     headers s' = headers s \<and> records s' = records s \<and> nextAddr s' = Suc (nextAddr s) \<and>
     (\<forall>a. a \<noteq> nextAddr s \<longrightarrow> loggables s' a = loggables s a)"
  by (auto simp: allocLoggable_def)

lemma Is_unique: "Is e a \<Longrightarrow> Is e b \<Longrightarrow> a = b"
  by (induction e) (auto split: option.splits)

lemma newLoggableError_connect:
  "AsConnectError e = Some ce \<Longrightarrow> newLoggableError s (Some e) = allocLoggable s ce"
  by (simp add: newLoggableError_def)

lemma newLoggableError_canceled:
  "AsConnectError e = None \<Longrightarrow> Is e ContextCanceled \<Longrightarrow>
     newLoggableError s (Some e) = (s, Some StaticCanceled)"
  by (simp add: newLoggableError_def)

lemma newLoggableError_deadline:
  assumes "AsConnectError e = None"
    and "Is e ContextDeadlineExceeded \<or> Is e OsErrDeadlineExceeded"
  shows "newLoggableError s (Some e) = (s, Some StaticDeadline)"
proof -
  have "\<not> Is e ContextCanceled"
    using assms(2) Is_unique [of e ContextCanceled] by auto
  with assms show ?thesis by (simp add: newLoggableError_def)
qed

lemma newLoggableError_unknown:
  assumes "AsConnectError e = None" and "\<not> Is e ContextCanceled"
    and "\<not> Is e ContextDeadlineExceeded" and "\<not> Is e OsErrDeadlineExceeded"
  shows "newLoggableError s (Some e) = allocLoggable s (NewError CodeUnknown (Some e))"
  using assms by (simp add: newLoggableError_def)

lemma codeOf_newLoggableError:
  "newLoggableError s (Some e) = (s', p) \<Longrightarrow> codeOf s' p = Inr (classifiedCode e)"
  by (auto simp: newLoggableError_def classifiedCode_def codeOf_def allocLoggable_def
      errCanceled_def errDeadline_def NewError_def split: option.splits if_splits)

text \<open>
  Claim C2. Classification returns for every input: the nil pointer for the nil error,
  and for every other error a non-nil pointer to a \<open>loggableError\<close> object. When a
  \<open>*connect.Error\<close> is reachable by unwrapping, the object holds exactly that
  \<open>connect.Error\<close>, so its code and its message are the ones of that error. When none
  is reachable and the error is neither a cancellation nor a deadline expiry, the object
  has the code unknown and the error's own text as its message.
\<close>

theorem newLoggableError_total:
  "newLoggableError s None = (s, None) \<and>
   (\<exists>s' p le. newLoggableError s (Some e) = (s', Some p) \<and> deref s' p = Some le) \<and>
   (\<forall>ce. AsConnectError e = Some ce \<longrightarrow>
      (\<exists>s' p. newLoggableError s (Some e) = (s', Some p) \<and>
         deref s' p = Some \<lparr>Error = ce\<rparr>)) \<and>
   (\<forall>c underlying. e = Connect c underlying \<longrightarrow>
      (\<exists>s' p le. newLoggableError s (Some e) = (s', Some p) \<and> deref s' p = Some le \<and>
         Code (Error le) = c \<and>
         Message (Error le) = (case underlying of None \<Rightarrow> [] | Some u \<Rightarrow> ErrorText u))) \<and>
   (AsConnectError e = None \<and> \<not> Is e ContextCanceled \<and>
    \<not> Is e ContextDeadlineExceeded \<and> \<not> Is e OsErrDeadlineExceeded \<longrightarrow>
      (\<exists>s' p le. newLoggableError s (Some e) = (s', Some p) \<and> deref s' p = Some le \<and>
         Code (Error le) = CodeUnknown \<and> Message (Error le) = ErrorText e))"
proof (intro conjI allI impI)
  show "newLoggableError s None = (s, None)"
    by (simp add: newLoggableError_def)
next
  show "\<exists>s' p le. newLoggableError s (Some e) = (s', Some p) \<and> deref s' p = Some le"
    by (auto simp: newLoggableError_def allocLoggable_def split: option.splits)
next
  fix ce assume "AsConnectError e = Some ce"
  then show "\<exists>s' p. newLoggableError s (Some e) = (s', Some p) \<and> deref s' p = Some \<lparr>Error = ce\<rparr>"
    by (simp add: newLoggableError_connect allocLoggable_def)
next
  fix c underlying assume "e = Connect c underlying"
  then show "\<exists>s' p le. newLoggableError s (Some e) = (s', Some p) \<and> deref s' p = Some le \<and>
         Code (Error le) = c \<and>
         Message (Error le) = (case underlying of None \<Rightarrow> [] | Some u \<Rightarrow> ErrorText u)"
    by (simp add: newLoggableError_def allocLoggable_def)
next
  assume "AsConnectError e = None \<and> \<not> Is e ContextCanceled \<and>
    \<not> Is e ContextDeadlineExceeded \<and> \<not> Is e OsErrDeadlineExceeded"
  then show "\<exists>s' p le. newLoggableError s (Some e) = (s', Some p) \<and> deref s' p = Some le \<and>
         Code (Error le) = CodeUnknown \<and> Message (Error le) = ErrorText e"
    by (simp add: newLoggableError_unknown allocLoggable_def NewError_def)
qed

text \<open>
  The theorem at a \<open>not_found\<close> connect error inside a wrapper and at a plain error, as
  in the cases of \<open>TestNewLoggableError\<close>.
\<close>

theorem newLoggableError_total_witness:
  "AsConnectError (Wrapper ''lookup: not_found: resource not found''
      (Connect CodeNotFound (Some (New ''resource not found'')))) =
     Some (ConnectError CodeNotFound (Some (New ''resource not found''))) \<and>
   (\<exists>s' p le. newLoggableError initial (Some (Wrapper ''lookup: not_found: resource not found''
        (Connect CodeNotFound (Some (New ''resource not found''))))) = (s', Some p) \<and>
      deref s' p = Some le \<and> Code (Error le) = CodeNotFound \<and>
      Message (Error le) = ''resource not found'') \<and>
   AsConnectError (New ''something went wrong'') = None \<and>
   \<not> Is (New ''something went wrong'') ContextCanceled \<and>
   \<not> Is (New ''something went wrong'') ContextDeadlineExceeded \<and>
   \<not> Is (New ''something went wrong'') OsErrDeadlineExceeded \<and>
   (\<exists>s' p le. newLoggableError initial (Some (New ''something went wrong'')) = (s', Some p) \<and>
      deref s' p = Some le \<and> Code (Error le) = CodeUnknown \<and>
      Message (Error le) = ''something went wrong'')"
proof -
  let ?w = "Wrapper ''lookup: not_found: resource not found''
      (Connect CodeNotFound (Some (New ''resource not found'')))"
  let ?ce = "ConnectError CodeNotFound (Some (New ''resource not found''))"
  let ?n = "New ''something went wrong''"
  have as: "AsConnectError ?w = Some ?ce" by simp
  have plain: "AsConnectError ?n = None \<and> \<not> Is ?n ContextCanceled \<and>
    \<not> Is ?n ContextDeadlineExceeded \<and> \<not> Is ?n OsErrDeadlineExceeded"
    by simp
  from newLoggableError_total [of initial ?w] as
  obtain s' p where "newLoggableError initial (Some ?w) = (s', Some p)"
    and "deref s' p = Some \<lparr>Error = ?ce\<rparr>"
    by blast
  then have one: "\<exists>s' p le. newLoggableError initial (Some ?w) = (s', Some p) \<and>
      deref s' p = Some le \<and> Code (Error le) = CodeNotFound \<and>
      Message (Error le) = ''resource not found''"
    by simp
  from newLoggableError_total [of initial ?n] plain
  have two: "\<exists>s' p le. newLoggableError initial (Some ?n) = (s', Some p) \<and>
      deref s' p = Some le \<and> Code (Error le) = CodeUnknown \<and>
      Message (Error le) = ErrorText ?n"
    by blast
  from as one plain two show ?thesis by simp
qed

text \<open>
  Claim C6. An error that is a context cancellation (\<open>errors.Is\<close> finds
  \<open>context.Canceled\<close>, the sentinel itself included), with no \<open>*connect.Error\<close> in its
  chain, is classified as the singleton \<open>errCanceled\<close>: the same pointer from every
  state, with nothing allocated or changed, and the object has the code canceled and
  the message \<open>request canceled\<close>. An error that is \<open>context.DeadlineExceeded\<close> or
  \<open>os.ErrDeadlineExceeded\<close> is classified as the one singleton \<open>errDeadline\<close>, with the
  code deadline-exceeded and the message \<open>request deadline exceeded\<close>.
\<close>

theorem newLoggableError_singletons:
  "(AsConnectError e = None \<and> Is e ContextCanceled \<longrightarrow>
      newLoggableError s (Some e) = (s, Some StaticCanceled) \<and>
      snd (newLoggableError s2 (Some e)) = snd (newLoggableError s (Some e))) \<and>
   (AsConnectError e = None \<and> (Is e ContextDeadlineExceeded \<or> Is e OsErrDeadlineExceeded) \<longrightarrow>
      newLoggableError s (Some e) = (s, Some StaticDeadline) \<and>
      snd (newLoggableError s2 (Some e)) = snd (newLoggableError s (Some e))) \<and>
   newLoggableError s (Some (Sentinel ContextCanceled)) = (s, Some StaticCanceled) \<and>
   newLoggableError s (Some (Sentinel ContextDeadlineExceeded)) = (s, Some StaticDeadline) \<and>
   newLoggableError s (Some (Sentinel OsErrDeadlineExceeded)) = (s, Some StaticDeadline) \<and>
   (\<exists>le. deref s StaticCanceled = Some le \<and> Code (Error le) = CodeCanceled \<and>
      Message (Error le) = ''request canceled'') \<and>
   (\<exists>le. deref s StaticDeadline = Some le \<and> Code (Error le) = CodeDeadlineExceeded \<and>
      Message (Error le) = ''request deadline exceeded'') \<and>
   StaticCanceled \<noteq> StaticDeadline"
proof (intro conjI impI)
  assume a: "AsConnectError e = None \<and> Is e ContextCanceled"
  then show "newLoggableError s (Some e) = (s, Some StaticCanceled)"
    by (simp add: newLoggableError_canceled)
  from a show "snd (newLoggableError s2 (Some e)) = snd (newLoggableError s (Some e))"
    by (simp add: newLoggableError_canceled)
next
  assume a: "AsConnectError e = None \<and> (Is e ContextDeadlineExceeded \<or> Is e OsErrDeadlineExceeded)"
  then show "newLoggableError s (Some e) = (s, Some StaticDeadline)"
    by (simp add: newLoggableError_deadline)
  from a show "snd (newLoggableError s2 (Some e)) = snd (newLoggableError s (Some e))"
    by (simp add: newLoggableError_deadline)
next
  show "newLoggableError s (Some (Sentinel ContextCanceled)) = (s, Some StaticCanceled)"
    by (simp add: newLoggableError_canceled)
  show "newLoggableError s (Some (Sentinel ContextDeadlineExceeded)) = (s, Some StaticDeadline)"
    by (simp add: newLoggableError_deadline)
  show "newLoggableError s (Some (Sentinel OsErrDeadlineExceeded)) = (s, Some StaticDeadline)"
    by (simp add: newLoggableError_deadline)
  show "\<exists>le. deref s StaticCanceled = Some le \<and> Code (Error le) = CodeCanceled \<and>
      Message (Error le) = ''request canceled''"
    by (simp add: errCanceled_def NewError_def)
  show "\<exists>le. deref s StaticDeadline = Some le \<and> Code (Error le) = CodeDeadlineExceeded \<and>
      Message (Error le) = ''request deadline exceeded''"
    by (simp add: errDeadline_def NewError_def)
  show "StaticCanceled \<noteq> StaticDeadline" by simp
qed

text \<open>
  The theorem at a cancellation wrapped once, and at a wrapped \<open>os.ErrDeadlineExceeded\<close>,
  from the initial state and from the example state.
\<close>

theorem newLoggableError_singletons_witness:
  "AsConnectError (Wrapper ''read frame: context canceled'' (Sentinel ContextCanceled)) = None \<and>
   Is (Wrapper ''read frame: context canceled'' (Sentinel ContextCanceled)) ContextCanceled \<and>
   newLoggableError initial
     (Some (Wrapper ''read frame: context canceled'' (Sentinel ContextCanceled))) =
     (initial, Some StaticCanceled) \<and>
   snd (newLoggableError exampleState
     (Some (Wrapper ''read frame: context canceled'' (Sentinel ContextCanceled)))) =
     Some StaticCanceled \<and>
   AsConnectError (Wrapper ''read: i/o timeout'' (Sentinel OsErrDeadlineExceeded)) = None \<and>
   Is (Wrapper ''read: i/o timeout'' (Sentinel OsErrDeadlineExceeded)) OsErrDeadlineExceeded \<and>
   newLoggableError initial (Some (Wrapper ''read: i/o timeout'' (Sentinel OsErrDeadlineExceeded))) =
     (initial, Some StaticDeadline)"
proof -
  let ?c = "Wrapper ''read frame: context canceled'' (Sentinel ContextCanceled)"
  let ?d = "Wrapper ''read: i/o timeout'' (Sentinel OsErrDeadlineExceeded)"
  have c: "AsConnectError ?c = None \<and> Is ?c ContextCanceled" by simp
  have d: "AsConnectError ?d = None \<and> (Is ?d ContextDeadlineExceeded \<or> Is ?d OsErrDeadlineExceeded)"
    by simp
  from newLoggableError_singletons [of ?c initial exampleState] c
  have one: "newLoggableError initial (Some ?c) = (initial, Some StaticCanceled)"
    and two: "snd (newLoggableError exampleState (Some ?c)) = snd (newLoggableError initial (Some ?c))"
    by blast+
  from newLoggableError_singletons [of ?d initial exampleState] d
  have three: "newLoggableError initial (Some ?d) = (initial, Some StaticDeadline)"
    by blast
  from c d one two three show ?thesis by simp
qed

text \<open>
  Claim C10. When a \<open>*connect.Error\<close> is reachable by unwrapping, classification
  allocates a new \<open>loggableError\<close> holding that \<open>connect.Error\<close>, also when the error
  is at the same time a context cancellation or a deadline expiry: the pointer returned
  is neither singleton, and the object has the connect error's own code and message.
\<close>

theorem newLoggableError_connect_first:
  "AsConnectError e = Some ce \<and>
   (Is e ContextCanceled \<or> Is e ContextDeadlineExceeded \<or> Is e OsErrDeadlineExceeded) \<longrightarrow>
     (\<exists>s' p le. newLoggableError s (Some e) = (s', Some p) \<and>
        p \<noteq> StaticCanceled \<and> p \<noteq> StaticDeadline \<and>
        deref s' p = Some le \<and> Error le = ce \<and>
        Code (Error le) = Code ce \<and> Message (Error le) = Message ce \<and>
        (\<forall>c underlying. e = Connect c underlying \<longrightarrow>
           Code (Error le) = c \<and>
           Message (Error le) = (case underlying of None \<Rightarrow> [] | Some u \<Rightarrow> ErrorText u)))"
proof
  assume a: "AsConnectError e = Some ce \<and>
    (Is e ContextCanceled \<or> Is e ContextDeadlineExceeded \<or> Is e OsErrDeadlineExceeded)"
  then have run: "newLoggableError s (Some e) = allocLoggable s ce"
    by (simp add: newLoggableError_connect)
  obtain s' p where al: "allocLoggable s ce = (s', p)"
    by (cases "allocLoggable s ce")
  from deref_allocLoggable [OF al]
  have p: "p = Some (Allocated (nextAddr s))"
    and d: "deref s' (Allocated (nextAddr s)) = Some \<lparr>Error = ce\<rparr>"
    by simp_all
  have own: "\<forall>c underlying. e = Connect c underlying \<longrightarrow>
           Code ce = c \<and>
           Message ce = (case underlying of None \<Rightarrow> [] | Some u \<Rightarrow> ErrorText u)"
    using a by auto
  show "\<exists>s' p le. newLoggableError s (Some e) = (s', Some p) \<and>
        p \<noteq> StaticCanceled \<and> p \<noteq> StaticDeadline \<and>
        deref s' p = Some le \<and> Error le = ce \<and>
        Code (Error le) = Code ce \<and> Message (Error le) = Message ce \<and>
        (\<forall>c underlying. e = Connect c underlying \<longrightarrow>
           Code (Error le) = c \<and>
           Message (Error le) = (case underlying of None \<Rightarrow> [] | Some u \<Rightarrow> ErrorText u))"
    using run al p d own by auto
qed

text \<open>
  The theorem at the input of the test case \<open>connect error wrapping context\<close>: the
  code stays aborted and the message is the text of \<open>context.Canceled\<close>.
\<close>

theorem newLoggableError_connect_first_witness:
  "AsConnectError (Connect CodeAborted (Some (Sentinel ContextCanceled))) =
     Some (ConnectError CodeAborted (Some (Sentinel ContextCanceled))) \<and>
   Is (Connect CodeAborted (Some (Sentinel ContextCanceled))) ContextCanceled \<and>
   (\<exists>s' p le. newLoggableError initial (Some (Connect CodeAborted (Some (Sentinel ContextCanceled)))) =
        (s', Some p) \<and>
      p \<noteq> StaticCanceled \<and> p \<noteq> StaticDeadline \<and> deref s' p = Some le \<and>
      Code (Error le) = CodeAborted \<and> Message (Error le) = ''context canceled'')"
proof -
  let ?e = "Connect CodeAborted (Some (Sentinel ContextCanceled))"
  let ?ce = "ConnectError CodeAborted (Some (Sentinel ContextCanceled))"
  have a: "AsConnectError ?e = Some ?ce" and b: "Is ?e ContextCanceled"
    by simp_all
  from newLoggableError_connect_first [of ?e ?ce initial] a b
  obtain s' p le where "newLoggableError initial (Some ?e) = (s', Some p)"
    and "p \<noteq> StaticCanceled" and "p \<noteq> StaticDeadline" and "deref s' p = Some le"
    and "Code (Error le) = Code ?ce" and "Message (Error le) = Message ?ce"
    by blast
  then have "\<exists>s' p le. newLoggableError initial (Some ?e) = (s', Some p) \<and>
      p \<noteq> StaticCanceled \<and> p \<noteq> StaticDeadline \<and> deref s' p = Some le \<and>
      Code (Error le) = CodeAborted \<and> Message (Error le) = ''context canceled''"
    by auto
  with a b show ?thesis by simp
qed

section \<open>Properties: the structured form of a classified error\<close>

lemma GroupValue_base:
  "GroupValue (baseAttrs le @ as) =
     KindGroup (baseAttrs le @ filter (\<lambda>a. \<not> isEmptyGroup (snd a)) as)"
  by (simp add: GroupValue_def baseAttrs_def)

lemma isEmptyGroup_iff: "isEmptyGroup v \<longleftrightarrow> v = KindGroup []"
  by (cases v) auto

lemma LogValue_none:
  "AsLogValuer (origErr le) = None \<Longrightarrow> LogValue (Some le) = KindGroup (baseAttrs le)"
  using GroupValue_base [of le "[]"]
  by (simp add: LogValue_def Let_def baseAttrs_def)

lemma LogValue_group:
  "AsLogValuer (origErr le) = Some (KindGroup members) \<Longrightarrow>
     LogValue (Some le) =
       KindGroup (baseAttrs le @ filter (\<lambda>a. \<not> isEmptyGroup (snd a)) members)"
  using GroupValue_base [of le members]
  by (simp add: LogValue_def Let_def baseAttrs_def)

lemma LogValue_details:
  assumes "AsLogValuer (origErr le) = Some v" and "\<forall>members. v \<noteq> KindGroup members"
  shows "LogValue (Some le) = KindGroup (baseAttrs le @ [(''details'', v)])"
proof -
  have "\<not> isEmptyGroup v"
    using assms(2) by (simp add: isEmptyGroup_iff)
  then have "GroupValue (baseAttrs le @ [(''details'', v)]) =
      KindGroup (baseAttrs le @ [(''details'', v)])"
    by (simp add: GroupValue_base)
  moreover have "LogValue (Some le) = GroupValue (baseAttrs le @ [(''details'', v)])"
    using assms by (cases v) (simp_all add: LogValue_def Let_def baseAttrs_def)
  ultimately show ?thesis by simp
qed

text \<open>
  Claim C7. \<open>LogValue\<close> looks for a \<open>slog.LogValuer\<close> in the chain of the error that
  \<open>Unwrap\<close> returns, or of the embedded \<open>connect.Error\<close> itself when there is no
  underlying error. When none is found the result is the group of exactly the two
  fields \<open>code\<close> and \<open>message\<close>. When the value found is a group, its members follow
  \<open>code\<close> and \<open>message\<close> directly (\<open>slog.GroupValue\<close> drops members that are empty
  groups), so the result has more than two fields as soon as the group exposes an
  attribute; a group that \<open>slog.GroupValue\<close> built exposes one unless it is the empty
  group, which exposes none and gives exactly the two fields. When the value found is
  not a group, it is nested under the one key \<open>details\<close>: three fields.
\<close>

theorem LogValue_fields:
  "LogValue None = KindAny AnyNil \<and>
   (AsLogValuer (origErr le) = None \<longrightarrow>
      LogValue (Some le) = KindGroup (baseAttrs le)) \<and>
   (\<forall>members. AsLogValuer (origErr le) = Some (KindGroup members) \<longrightarrow>
      LogValue (Some le) =
        KindGroup (baseAttrs le @ filter (\<lambda>a. \<not> isEmptyGroup (snd a)) members)) \<and>
   (\<forall>as. AsLogValuer (origErr le) = Some (GroupValue as) \<longrightarrow>
      (\<exists>members. GroupValue as = KindGroup members \<and>
         LogValue (Some le) = KindGroup (baseAttrs le @ members) \<and>
         (members \<noteq> [] \<longleftrightarrow> 2 < length (baseAttrs le @ members)))) \<and>
   (\<forall>v. AsLogValuer (origErr le) = Some v \<and> (\<forall>members. v \<noteq> KindGroup members) \<longrightarrow>
      LogValue (Some le) = KindGroup (baseAttrs le @ [(''details'', v)]) \<and>
      length (baseAttrs le @ [(''details'', v)]) = 3) \<and>
   length (baseAttrs le) = 2 \<and> map fst (baseAttrs le) = [''code'', ''message'']"
proof (intro conjI allI impI)
  show "LogValue None = KindAny AnyNil"
    by (simp add: LogValue_def)
next
  assume "AsLogValuer (origErr le) = None"
  then show "LogValue (Some le) = KindGroup (baseAttrs le)"
    by (rule LogValue_none)
next
  fix members
  assume "AsLogValuer (origErr le) = Some (KindGroup members)"
  then show "LogValue (Some le) =
      KindGroup (baseAttrs le @ filter (\<lambda>a. \<not> isEmptyGroup (snd a)) members)"
    by (rule LogValue_group)
next
  fix as
  assume a: "AsLogValuer (origErr le) = Some (GroupValue as)"
  define members where "members = filter (\<lambda>a. \<not> isEmptyGroup (snd a)) as"
  have g: "GroupValue as = KindGroup members"
    by (simp add: GroupValue_def members_def)
  have "filter (\<lambda>a. \<not> isEmptyGroup (snd a)) members = members"
    by (simp add: members_def)
  with a g have "LogValue (Some le) = KindGroup (baseAttrs le @ members)"
    using LogValue_group [of le members] by simp
  with g show "\<exists>members. GroupValue as = KindGroup members \<and>
         LogValue (Some le) = KindGroup (baseAttrs le @ members) \<and>
         (members \<noteq> [] \<longleftrightarrow> 2 < length (baseAttrs le @ members))"
    by (auto simp: baseAttrs_def)
next
  fix v
  assume a: "AsLogValuer (origErr le) = Some v \<and> (\<forall>members. v \<noteq> KindGroup members)"
  then show "LogValue (Some le) = KindGroup (baseAttrs le @ [(''details'', v)])"
    by (simp add: LogValue_details)
  show "length (baseAttrs le @ [(''details'', v)]) = 3"
    by (simp add: baseAttrs_def)
next
  show "length (baseAttrs le) = 2" by (simp add: baseAttrs_def)
  show "map fst (baseAttrs le) = [''code'', ''message'']" by (simp add: baseAttrs_def)
qed

text \<open>
  The theorem at the \<open>detailedError\<close> of the tests, classified as unknown: four fields.
  At an error whose \<open>LogValue\<close> is a string: three fields. At a plain error: two.
\<close>

theorem LogValue_fields_witness:
  "AsLogValuer (origErr \<lparr>Error = NewError CodeUnknown (Some (detailedError ''email'' ''invalid format''))\<rparr>) =
     Some (GroupValue [(''field'', KindString ''email''), (''reason'', KindString ''invalid format'')]) \<and>
   LogValue (Some \<lparr>Error = NewError CodeUnknown (Some (detailedError ''email'' ''invalid format''))\<rparr>) =
     KindGroup [(''code'', KindString ''unknown''), (''message'', KindString ''validation error''),
                (''field'', KindString ''email''), (''reason'', KindString ''invalid format'')] \<and>
   AsLogValuer (origErr \<lparr>Error = NewError CodeInternal (Some (Valuer ''disk full'' (KindString ''sda1'') None))\<rparr>) =
     Some (KindString ''sda1'') \<and>
   LogValue (Some \<lparr>Error = NewError CodeInternal (Some (Valuer ''disk full'' (KindString ''sda1'') None))\<rparr>) =
     KindGroup [(''code'', KindString ''internal''), (''message'', KindString ''disk full''),
                (''details'', KindString ''sda1'')] \<and>
   AsLogValuer (origErr \<lparr>Error = NewError CodeNotFound (Some (New ''resource not found''))\<rparr>) = None \<and>
   LogValue (Some \<lparr>Error = NewError CodeNotFound (Some (New ''resource not found''))\<rparr>) =
     KindGroup [(''code'', KindString ''not_found''), (''message'', KindString ''resource not found'')]"
proof -
  let ?d = "\<lparr>Error = NewError CodeUnknown (Some (detailedError ''email'' ''invalid format''))\<rparr>"
  let ?s = "\<lparr>Error = NewError CodeInternal (Some (Valuer ''disk full'' (KindString ''sda1'') None))\<rparr>"
  let ?n = "\<lparr>Error = NewError CodeNotFound (Some (New ''resource not found''))\<rparr>"
  let ?as = "[(''field'', KindString ''email''), (''reason'', KindString ''invalid format'')]"
  have d: "AsLogValuer (origErr ?d) = Some (GroupValue ?as)"
    by (simp add: origErr_def NewError_def detailedError_def)
  have s: "AsLogValuer (origErr ?s) = Some (KindString ''sda1'')"
    by (simp add: origErr_def NewError_def)
  have n: "AsLogValuer (origErr ?n) = None"
    by (simp add: origErr_def NewError_def)
  have cu: "codeString CodeUnknown = ''unknown''" by code_simp
  have ci: "codeString CodeInternal = ''internal''" by code_simp
  have cn: "codeString CodeNotFound = ''not_found''" by code_simp
  from LogValue_fields [of ?d] d
  obtain members where "GroupValue ?as = KindGroup members"
    and "LogValue (Some ?d) = KindGroup (baseAttrs ?d @ members)"
    by blast
  then have one: "LogValue (Some ?d) =
     KindGroup [(''code'', KindString ''unknown''), (''message'', KindString ''validation error''),
                (''field'', KindString ''email''), (''reason'', KindString ''invalid format'')]"
    by (auto simp: GroupValue_def baseAttrs_def NewError_def cu detailedError_def)
  from LogValue_fields [of ?s] s
  have "LogValue (Some ?s) = KindGroup (baseAttrs ?s @ [(''details'', KindString ''sda1'')])"
    by blast
  then have two: "LogValue (Some ?s) =
     KindGroup [(''code'', KindString ''internal''), (''message'', KindString ''disk full''),
                (''details'', KindString ''sda1'')]"
    by (simp add: baseAttrs_def NewError_def ci)
  from LogValue_fields [of ?n] n
  have "LogValue (Some ?n) = KindGroup (baseAttrs ?n)"
    by blast
  then have three: "LogValue (Some ?n) =
     KindGroup [(''code'', KindString ''not_found''), (''message'', KindString ''resource not found'')]"
    by (simp add: baseAttrs_def NewError_def cn)
  from d s n one two three show ?thesis by simp
qed

section \<open>Properties: the stream wrapper\<close>

lemma Send_failed: "Send s c m (Some e) = (s, c, Some e)"
  by (simp add: Send_def)

lemma Receive_failed: "Receive s c m (Some e) = (s, c, Some e)"
  by (simp add: Receive_def)

lemma Send_ok:
  "\<exists>s'. Send s c m None = (s', c\<lparr>sentCount := sentCount c + 1\<rparr>, None) \<and>
        headers s' = headers s \<and> loggables s' = loggables s \<and> nextAddr s' = nextAddr s \<and>
        (\<exists>rs. records s' = records s @ rs \<and> (\<forall>r \<in> set rs. level r = LevelDebug))"
  by (simp add: Send_def Let_def emit_def)

lemma Receive_ok:
  "\<exists>s'. Receive s c m None = (s', c\<lparr>receivedCount := receivedCount c + 1\<rparr>, None) \<and>
        headers s' = headers s \<and> loggables s' = loggables s \<and> nextAddr s' = nextAddr s \<and>
        (\<exists>rs. records s' = records s @ rs \<and> (\<forall>r \<in> set rs. level r = LevelDebug))"
  by (simp add: Receive_def Let_def emit_def)

lemma runCalls_effect:
  "\<exists>s' rs. runCalls s c calls =
       (s', c\<lparr>sentCount := sentCount c + of_nat (okSends calls),
              receivedCount := receivedCount c + of_nat (okReceives calls)\<rparr>) \<and>
     headers s' = headers s \<and> loggables s' = loggables s \<and> nextAddr s' = nextAddr s \<and>
     records s' = records s @ rs \<and> (\<forall>r \<in> set rs. level r = LevelDebug)"
proof (induction calls arbitrary: s c)
  case Nil
  show ?case by (simp add: okSends_def okReceives_def)
next
  case (Cons call calls)
  show ?case
  proof (cases call)
    case (CallSend m delegate)
    show ?thesis
    proof (cases delegate)
      case None
      from Send_ok [of s c m] obtain s1 rs1 where
        step: "Send s c m None = (s1, c\<lparr>sentCount := sentCount c + 1\<rparr>, None)"
        and fr: "headers s1 = headers s" "loggables s1 = loggables s" "nextAddr s1 = nextAddr s"
        and r1: "records s1 = records s @ rs1" "\<forall>r \<in> set rs1. level r = LevelDebug"
        by blast
      from Cons.IH [of s1 "c\<lparr>sentCount := sentCount c + 1\<rparr>"] obtain s' rs where
        run: "runCalls s1 (c\<lparr>sentCount := sentCount c + 1\<rparr>) calls =
           (s', c\<lparr>sentCount := sentCount c + 1 + of_nat (okSends calls),
                  receivedCount := receivedCount c + of_nat (okReceives calls)\<rparr>)"
        and fr': "headers s' = headers s1" "loggables s' = loggables s1" "nextAddr s' = nextAddr s1"
        and r': "records s' = records s1 @ rs" "\<forall>r \<in> set rs. level r = LevelDebug"
        by auto
      have "records s' = records s @ (rs1 @ rs)" "\<forall>r \<in> set (rs1 @ rs). level r = LevelDebug"
        using r1 r' by auto
      then show ?thesis
        using CallSend None step run fr fr'
        by (auto simp: okSends_def okReceives_def add.assoc add.commute)
    next
      case (Some e)
      with CallSend Cons.IH [of s c] show ?thesis
        by (simp add: Send_failed okSends_def okReceives_def)
    qed
  next
    case (CallReceive m delegate)
    show ?thesis
    proof (cases delegate)
      case None
      from Receive_ok [of s c m] obtain s1 rs1 where
        step: "Receive s c m None = (s1, c\<lparr>receivedCount := receivedCount c + 1\<rparr>, None)"
        and fr: "headers s1 = headers s" "loggables s1 = loggables s" "nextAddr s1 = nextAddr s"
        and r1: "records s1 = records s @ rs1" "\<forall>r \<in> set rs1. level r = LevelDebug"
        by blast
      from Cons.IH [of s1 "c\<lparr>receivedCount := receivedCount c + 1\<rparr>"] obtain s' rs where
        run: "runCalls s1 (c\<lparr>receivedCount := receivedCount c + 1\<rparr>) calls =
           (s', c\<lparr>sentCount := sentCount c + of_nat (okSends calls),
                  receivedCount := receivedCount c + 1 + of_nat (okReceives calls)\<rparr>)"
        and fr': "headers s' = headers s1" "loggables s' = loggables s1" "nextAddr s' = nextAddr s1"
        and r': "records s' = records s1 @ rs" "\<forall>r \<in> set rs. level r = LevelDebug"
        by auto
      have "records s' = records s @ (rs1 @ rs)" "\<forall>r \<in> set (rs1 @ rs). level r = LevelDebug"
        using r1 r' by auto
      then show ?thesis
        using CallReceive None step run fr fr'
        by (auto simp: okSends_def okReceives_def add.assoc add.commute)
    next
      case (Some e)
      with CallReceive Cons.IH [of s c] show ?thesis
        by (simp add: Receive_failed okSends_def okReceives_def)
    qed
  qed
qed

lemma sint_count: "n < 2 ^ 63 \<Longrightarrow> sint (of_nat n :: 64 word) = int n"
proof -
  assume "n < 2 ^ 63"
  then have "int n < 2 ^ 63"
    by (metis of_nat_less_iff of_nat_numeral of_nat_power)
  then have "signed_take_bit 63 (int n) = int n"
    by (simp add: signed_take_bit_int_eq_self_iff)
  moreover have "sint (of_nat n :: 64 word) = signed_take_bit 63 (int n)"
    using sint_sbintrunc' [of "int n", where ?'a = 64] by simp
  ultimately show ?thesis by simp
qed

text \<open>
  Claim C3. A send whose delegate fails returns the delegate's error and leaves the
  state and both counters as they were; so does a failed receive. A send whose delegate
  succeeds returns nil and adds one to the sent counter, a successful receive adds one to
  the received counter. Hence after a run on a new wrapper in which \<open>N\<close> sends and \<open>M\<close>
  receives succeed, in any order and among any number of failed calls, the counters hold
  \<open>N\<close> and \<open>M\<close> as 64-bit values, and read exactly \<open>N\<close> and \<open>M\<close> as Go \<open>int\<close>s as long
  as these are below \<open>2^63\<close>.
\<close>

theorem stream_counters:
  "Send s c m (Some e) = (s, c, Some e) \<and>
   Receive s c m (Some e) = (s, c, Some e) \<and>
   (\<exists>s'. Send s c m None = (s', c\<lparr>sentCount := sentCount c + 1\<rparr>, None)) \<and>
   (\<exists>s'. Receive s c m None = (s', c\<lparr>receivedCount := receivedCount c + 1\<rparr>, None)) \<and>
   (\<exists>s' c'. runCalls s (newLoggedStreamConn l) calls = (s', c') \<and>
      sentCount c' = of_nat (okSends calls) \<and>
      receivedCount c' = of_nat (okReceives calls) \<and>
      (okSends calls < 2 ^ 63 \<longrightarrow> sint (sentCount c') = int (okSends calls)) \<and>
      (okReceives calls < 2 ^ 63 \<longrightarrow> sint (receivedCount c') = int (okReceives calls)))"
proof (intro conjI)
  show "Send s c m (Some e) = (s, c, Some e)" by (rule Send_failed)
  show "Receive s c m (Some e) = (s, c, Some e)" by (rule Receive_failed)
  show "\<exists>s'. Send s c m None = (s', c\<lparr>sentCount := sentCount c + 1\<rparr>, None)"
    using Send_ok [of s c m] by blast
  show "\<exists>s'. Receive s c m None = (s', c\<lparr>receivedCount := receivedCount c + 1\<rparr>, None)"
    using Receive_ok [of s c m] by blast
  from runCalls_effect [of s "newLoggedStreamConn l" calls]
  obtain s' where run: "runCalls s (newLoggedStreamConn l) calls =
       (s', (newLoggedStreamConn l)\<lparr>sentCount := sentCount (newLoggedStreamConn l) + of_nat (okSends calls),
              receivedCount := receivedCount (newLoggedStreamConn l) + of_nat (okReceives calls)\<rparr>)"
    by blast
  define c' where "c' = (newLoggedStreamConn l)\<lparr>sentCount := sentCount (newLoggedStreamConn l) + of_nat (okSends calls),
              receivedCount := receivedCount (newLoggedStreamConn l) + of_nat (okReceives calls)\<rparr>"
  have sc: "sentCount c' = of_nat (okSends calls)"
    and rc: "receivedCount c' = of_nat (okReceives calls)"
    by (simp_all add: c'_def newLoggedStreamConn_def)
  have "okSends calls < 2 ^ 63 \<longrightarrow> sint (sentCount c') = int (okSends calls)"
    using sc by (simp add: sint_count)
  moreover have "okReceives calls < 2 ^ 63 \<longrightarrow> sint (receivedCount c') = int (okReceives calls)"
    using rc by (simp add: sint_count)
  ultimately show "\<exists>s' c'. runCalls s (newLoggedStreamConn l) calls = (s', c') \<and>
      sentCount c' = of_nat (okSends calls) \<and>
      receivedCount c' = of_nat (okReceives calls) \<and>
      (okSends calls < 2 ^ 63 \<longrightarrow> sint (sentCount c') = int (okSends calls)) \<and>
      (okReceives calls < 2 ^ 63 \<longrightarrow> sint (receivedCount c') = int (okReceives calls))"
    using run sc rc unfolding c'_def by blast
qed

text \<open>
  The theorem at a run with three successful sends, one failed send, two successful
  receives and a receive that ends with \<open>io.EOF\<close>: the counters read 3 and 2.
\<close>

theorem stream_counters_witness:
  "okSends exampleCalls < 2 ^ 63 \<and> okReceives exampleCalls < 2 ^ 63 \<and>
   (\<exists>s' c'. runCalls initial (newLoggedStreamConn \<lparr>withAttrs = [], enabledDebug = False\<rparr>)
        exampleCalls = (s', c') \<and>
      sint (sentCount c') = 3 \<and> sint (receivedCount c') = 2)"
proof -
  have n: "okSends exampleCalls = 3" and m: "okReceives exampleCalls = 2"
    by (simp_all add: okSends_def okReceives_def exampleCalls_def)
  from stream_counters
    [of initial "newLoggedStreamConn \<lparr>withAttrs = [], enabledDebug = False\<rparr>" NilPayload
        "New []" "\<lparr>withAttrs = [], enabledDebug = False\<rparr>" exampleCalls]
  obtain s' c' where
    "runCalls initial (newLoggedStreamConn \<lparr>withAttrs = [], enabledDebug = False\<rparr>) exampleCalls =
       (s', c')"
    and "okSends exampleCalls < 2 ^ 63 \<longrightarrow> sint (sentCount c') = int (okSends exampleCalls)"
    and "okReceives exampleCalls < 2 ^ 63 \<longrightarrow> sint (receivedCount c') = int (okReceives exampleCalls)"
    by blast
  then show ?thesis using n m by auto
qed

section \<open>Properties: the interceptor\<close>

lemma preserves_refl: "preserves s s"
  by (simp add: preserves_def)

lemma preserves_trans: "preserves s s1 \<Longrightarrow> preserves s1 s2 \<Longrightarrow> preserves s s2"
  by (auto simp: preserves_def)

lemma preserves_emit: "preserves s (emit s l lv m as)"
  by (simp add: preserves_def emit_def)

lemma records_emit:
  "records (emit s l lv m as) =
     records s @ [\<lparr>level = lv, msg = m, scope = withAttrs l, attrs = as\<rparr>]"
  by (simp add: emit_def)

lemma preserves_redactHeadersMap:
  "redactHeadersMap uni s hdrs names = (s', r) \<Longrightarrow> preserves s s' \<and> records s' = records s"
  by (auto simp: redactHeadersMap_def Let_def preserves_def)

lemma logStarted_effect:
  "preserves s (logStarted uni s l names m first hdrs) \<and>
   (\<exists>rs. records (logStarted uni s l names m first hdrs) = records s @ rs \<and>
      (\<forall>r \<in> set rs. level r = LevelDebug))"
proof (cases "enabledDebug l")
  case False
  then show ?thesis by (simp add: logStarted_def preserves_refl)
next
  case True
  obtain s' r where run: "redactHeadersMap uni s hdrs names = (s', r)"
    by (cases "redactHeadersMap uni s hdrs names")
  from preserves_redactHeadersMap [OF run]
  have p: "preserves s s'" and rs: "records s' = records s" by simp_all
  let ?as = "first @ [(''headers'', KindAny (AnyHeader r))]"
  have eq: "logStarted uni s l names m first hdrs = emit s' l LevelDebug m ?as"
    using True run by (simp add: logStarted_def)
  have "preserves s (emit s' l LevelDebug m ?as)"
    using p preserves_emit [of s'] by (rule preserves_trans)
  moreover have "records (emit s' l LevelDebug m ?as) =
      records s @ [\<lparr>level = LevelDebug, msg = m, scope = withAttrs l, attrs = ?as\<rparr>]"
    by (simp add: records_emit rs)
  ultimately show ?thesis unfolding eq by simp
qed

lemma preserves_allocLoggable: "allocLoggable s ce = (s', p) \<Longrightarrow> preserves s s'"
  by (auto simp: allocLoggable_def preserves_def)

lemma newLoggableError_effect:
  "\<exists>s' p. newLoggableError s (Some e) = (s', Some p) \<and> preserves s s' \<and>
      records s' = records s \<and> codeOf s' (Some p) = Inr (classifiedCode e)"
proof -
  obtain s' q where run: "newLoggableError s (Some e) = (s', q)"
    by (cases "newLoggableError s (Some e)")
  have "q \<noteq> None"
    using run by (auto simp: newLoggableError_def allocLoggable_def split: option.splits if_splits)
  then obtain p where q: "q = Some p" by auto
  have "preserves s s' \<and> records s' = records s"
    using run
    by (auto simp: newLoggableError_def allocLoggable_def preserves_def
        split: option.splits if_splits)
  with run q codeOf_newLoggableError [OF run] show ?thesis by auto
qed

lemma logFailed_effect:
  "\<exists>s' p. logFailed s l m as e = Inr s' \<and> preserves s s' \<and>
     records s' = records s @
       [\<lparr>level = (if classifiedCode e < CodeInternal then LevelWarn else LevelError),
         msg = m, scope = withAttrs l,
         attrs = as @ [(''error'', KindAny (AnyLoggable (Some p)))]\<rparr>]"
proof -
  from newLoggableError_effect [of s e] obtain s1 p where
    run: "newLoggableError s (Some e) = (s1, Some p)" and pr: "preserves s s1"
    and rs: "records s1 = records s" and code: "codeOf s1 (Some p) = Inr (classifiedCode e)"
    by blast
  let ?lv = "if classifiedCode e < CodeInternal then LevelWarn else LevelError"
  let ?as = "as @ [(''error'', KindAny (AnyLoggable (Some p)))]"
  have eq: "logFailed s l m as e = Inr (emit s1 l ?lv m ?as)"
    using run code by (simp add: logFailed_def Let_def)
  have "preserves s (emit s1 l ?lv m ?as)"
    using pr preserves_emit [of s1] by (rule preserves_trans)
  moreover have "records (emit s1 l ?lv m ?as) =
      records s @ [\<lparr>level = ?lv, msg = m, scope = withAttrs l, attrs = ?as\<rparr>]"
    by (simp add: records_emit rs)
  ultimately show ?thesis unfolding eq by blast
qed

lemma initRequestLogger_wellFormed:
  assumes "wellFormed (Procedure spec)"
  shows "\<exists>l. initRequestLogger i ctx spec peer = Inr l \<and> enabledDebug l = enabledDebug (logger i)"
proof -
  from assms have "CHR ''/'' \<in> set (TrimPrefix (Procedure spec) ''/'')"
    by (simp add: wellFormed_def)
  then obtain service rpc where
    "TrimPrefix (Procedure spec) ''/'' = service @ CHR ''/'' # rpc" and "CHR ''/'' \<notin> set service"
    by (auto dest: split_list_first)
  then have "TrimPrefix (Procedure spec) ''/'' = service @ ''/'' @ rpc" and "CHR ''/'' \<notin> set service"
    by simp_all
  from initRequestLogger_split [OF this, of i ctx peer] show ?thesis by simp
qed

lemma WrapUnary_malformed:
  "initRequestLogger i ctx (reqSpec req) (reqPeer req) = Inl p \<Longrightarrow>
     WrapUnary uni i h elapsed s ctx req = Inl p"
  by (simp add: WrapUnary_def)

lemma WrapUnary_nil:
  "initRequestLogger i ctx (reqSpec req) (reqPeer req) = Inr l \<Longrightarrow> h req = (None, None) \<Longrightarrow>
     WrapUnary uni i h elapsed s ctx req = Inl NilDereference"
  by (simp add: WrapUnary_def Let_def)

lemma WrapUnary_failure:
  assumes init: "initRequestLogger i ctx (reqSpec req) (reqPeer req) = Inr l"
    and run: "h req = (res, Some e)"
  shows "\<exists>s' rs p. WrapUnary uni i h elapsed s ctx req = Inr (s', res, Some e) \<and>
     preserves s s' \<and> (\<forall>r \<in> set rs. level r = LevelDebug) \<and>
     records s' = records s @ rs @
       [\<lparr>level = (if classifiedCode e < CodeInternal then LevelWarn else LevelError),
         msg = ''request failed'', scope = withAttrs l,
         attrs = [(''duration'', KindDuration elapsed)] @
                 sizeAttrs ''request_size'' (reqAny req) @
                 [(''error'', KindAny (AnyLoggable (Some p)))]\<rparr>]"
proof -
  define s1 where "s1 = logStarted uni s l (redactHeaders i) ''request started''
      [(''request'', KindAny (AnyPayload (reqAny req)))] (reqHeader req)"
  define logAttrs where
    "logAttrs = [(''duration'', KindDuration elapsed)] @ sizeAttrs ''request_size'' (reqAny req)"
  from logStarted_effect [of s uni l "redactHeaders i" "''request started''"
      "[(''request'', KindAny (AnyPayload (reqAny req)))]" "reqHeader req"]
  obtain rs where p1: "preserves s s1" and r1: "records s1 = records s @ rs"
    and d1: "\<forall>r \<in> set rs. level r = LevelDebug"
    unfolding s1_def by blast
  from logFailed_effect [of s1 l "''request failed''" logAttrs e]
  obtain s2 p where f: "logFailed s1 l ''request failed'' logAttrs e = Inr s2"
    and p2: "preserves s1 s2"
    and r2: "records s2 = records s1 @
       [\<lparr>level = (if classifiedCode e < CodeInternal then LevelWarn else LevelError),
         msg = ''request failed'', scope = withAttrs l,
         attrs = logAttrs @ [(''error'', KindAny (AnyLoggable (Some p)))]\<rparr>]"
    by blast
  have "WrapUnary uni i h elapsed s ctx req = Inr (s2, res, Some e)"
    using init run f
    by (cases "0 \<le> calculateSize (reqAny req)")
      (simp_all add: WrapUnary_def Let_def s1_def [symmetric] logAttrs_def sizeAttrs_def)
  moreover have "preserves s s2"
    using p1 p2 by (rule preserves_trans)
  ultimately show ?thesis
    using r1 r2 d1 unfolding logAttrs_def by auto
qed

lemma WrapUnary_success:
  assumes init: "initRequestLogger i ctx (reqSpec req) (reqPeer req) = Inr l"
    and run: "h req = (Some res, None)"
  shows "\<exists>s' rs. WrapUnary uni i h elapsed s ctx req = Inr (s', Some res, None) \<and>
     preserves s s' \<and> (\<forall>r \<in> set rs. level r = LevelDebug) \<and>
     records s' = records s @ rs @
       [\<lparr>level = LevelInfo, msg = ''request completed'', scope = withAttrs l,
         attrs = [(''duration'', KindDuration elapsed)] @
                 sizeAttrs ''request_size'' (reqAny req) @
                 sizeAttrs ''response_size'' (resAny res)\<rparr>]"
proof -
  define s1 where "s1 = logStarted uni s l (redactHeaders i) ''request started''
      [(''request'', KindAny (AnyPayload (reqAny req)))] (reqHeader req)"
  define s2 where "s2 = logStarted uni s1 l (redactHeaders i) ''response completed''
      [(''response'', KindAny (AnyPayload (resAny res)))] (resHeader res)"
  define logAttrs where
    "logAttrs = [(''duration'', KindDuration elapsed)] @ sizeAttrs ''request_size'' (reqAny req) @
       sizeAttrs ''response_size'' (resAny res)"
  from logStarted_effect [of s uni l "redactHeaders i" "''request started''"
      "[(''request'', KindAny (AnyPayload (reqAny req)))]" "reqHeader req"]
  obtain rs1 where p1: "preserves s s1" and r1: "records s1 = records s @ rs1"
    and d1: "\<forall>r \<in> set rs1. level r = LevelDebug"
    unfolding s1_def by blast
  from logStarted_effect [of s1 uni l "redactHeaders i" "''response completed''"
      "[(''response'', KindAny (AnyPayload (resAny res)))]" "resHeader res"]
  obtain rs2 where p2: "preserves s1 s2" and r2: "records s2 = records s1 @ rs2"
    and d2: "\<forall>r \<in> set rs2. level r = LevelDebug"
    unfolding s2_def by blast
  have "WrapUnary uni i h elapsed s ctx req =
      Inr (emit s2 l LevelInfo ''request completed'' logAttrs, Some res, None)"
    using init run
    by (cases "0 \<le> calculateSize (reqAny req)"; cases "0 \<le> calculateSize (resAny res)")
      (simp_all add: WrapUnary_def Let_def s1_def [symmetric] s2_def [symmetric] logAttrs_def
        sizeAttrs_def)
  moreover have "preserves s (emit s2 l LevelInfo ''request completed'' logAttrs)"
    using preserves_trans [OF preserves_trans [OF p1 p2] preserves_emit] .
  moreover have "records (emit s2 l LevelInfo ''request completed'' logAttrs) =
      records s @ (rs1 @ rs2) @
       [\<lparr>level = LevelInfo, msg = ''request completed'', scope = withAttrs l, attrs = logAttrs\<rparr>]"
    by (simp add: records_emit r1 r2)
  moreover have "\<forall>r \<in> set (rs1 @ rs2). level r = LevelDebug"
    using d1 d2 by auto
  ultimately show ?thesis unfolding logAttrs_def by blast
qed

lemma WrapUnary_returns:
  assumes "WrapUnary uni i h elapsed s ctx req = Inr (s', res, err)"
  shows "(res, err) = h req \<and> preserves s s'"
proof (cases "initRequestLogger i ctx (reqSpec req) (reqPeer req)")
  case (Inl p)
  from WrapUnary_malformed [OF this, of uni h elapsed s] assms show ?thesis by simp
next
  case (Inr l)
  obtain res' err' where n: "h req = (res', err')" by (cases "h req")
  show ?thesis
  proof (cases err')
    case (Some e)
    from WrapUnary_failure [where uni = uni and h = h and elapsed = elapsed and s = s, OF Inr n [unfolded Some]]
      assms n Some
    show ?thesis by auto
  next
    case None
    show ?thesis
    proof (cases res')
      case (Some r)
      from WrapUnary_success [where uni = uni and h = h and elapsed = elapsed and s = s,
          OF Inr n [unfolded None Some]] assms n None Some
      show ?thesis by auto
    next
      case no: None
      from WrapUnary_nil [where uni = uni and h = h and elapsed = elapsed and s = s,
          OF Inr n [unfolded None no]] assms
      show ?thesis by simp
    qed
  qed
qed

lemma WrapStreamingHandler_malformed:
  "initRequestLogger i ctx (connSpec conn) (connPeer conn) = Inl p \<Longrightarrow>
     WrapStreamingHandler uni i h elapsed s ctx conn = Inl p"
  by (simp add: WrapStreamingHandler_def)

lemma stream_prefix:
  "\<exists>s2 rs.
     runCalls (logStarted uni s l names ''stream started'' [] (RequestHeader conn))
       (newLoggedStreamConn l) calls =
       (s2, (newLoggedStreamConn l)\<lparr>sentCount := of_nat (okSends calls),
              receivedCount := of_nat (okReceives calls)\<rparr>) \<and>
     preserves s s2 \<and> records s2 = records s @ rs \<and> (\<forall>r \<in> set rs. level r = LevelDebug)"
proof -
  define s1 where "s1 = logStarted uni s l names ''stream started'' [] (RequestHeader conn)"
  from logStarted_effect [of s uni l names "''stream started''" "[]" "RequestHeader conn"]
  obtain rs1 where p1: "preserves s s1" and r1: "records s1 = records s @ rs1"
    and d1: "\<forall>r \<in> set rs1. level r = LevelDebug"
    unfolding s1_def by blast
  from runCalls_effect [of s1 "newLoggedStreamConn l" calls]
  obtain s2 rs2 where run: "runCalls s1 (newLoggedStreamConn l) calls =
       (s2, (newLoggedStreamConn l)\<lparr>sentCount := sentCount (newLoggedStreamConn l) + of_nat (okSends calls),
              receivedCount := receivedCount (newLoggedStreamConn l) + of_nat (okReceives calls)\<rparr>)"
    and fr: "headers s2 = headers s1" "loggables s2 = loggables s1" "nextAddr s2 = nextAddr s1"
    and r2: "records s2 = records s1 @ rs2" and d2: "\<forall>r \<in> set rs2. level r = LevelDebug"
    by blast
  have "preserves s1 s2"
    using fr by (simp add: preserves_def)
  with p1 have "preserves s s2" by (rule preserves_trans)
  moreover have "records s2 = records s @ (rs1 @ rs2)" using r1 r2 by simp
  moreover have "\<forall>r \<in> set (rs1 @ rs2). level r = LevelDebug" using d1 d2 by auto
  moreover have "runCalls s1 (newLoggedStreamConn l) calls =
       (s2, (newLoggedStreamConn l)\<lparr>sentCount := of_nat (okSends calls),
              receivedCount := of_nat (okReceives calls)\<rparr>)"
    using run by (simp add: newLoggedStreamConn_def)
  ultimately show ?thesis unfolding s1_def by blast
qed

lemma GroupValue_counts:
  "GroupValue [(''sent'', KindInt64 a), (''received'', KindInt64 b)] =
     KindGroup [(''sent'', KindInt64 a), (''received'', KindInt64 b)]"
  by (simp add: GroupValue_def)

lemma WrapStreamingHandler_completed:
  assumes init: "initRequestLogger i ctx (connSpec conn) (connPeer conn) = Inr l"
    and run: "h conn = (calls, err)"
    and ok: "err = None \<or> (\<exists>e. err = Some e \<and> Is e IoEOF)"
  shows "\<exists>s' rs. WrapStreamingHandler uni i h elapsed s ctx conn = Inr (s', err) \<and>
     preserves s s' \<and> (\<forall>r \<in> set rs. level r = LevelDebug) \<and>
     records s' = records s @ rs @
       [\<lparr>level = LevelInfo, msg = ''stream completed'', scope = withAttrs l,
         attrs = streamAttrs calls elapsed\<rparr>]"
proof -
  from stream_prefix [where s = s and l = l and names = "redactHeaders i" and conn = conn
      and calls = calls]
  obtain s2 rs where calls: "runCalls (logStarted uni s l (redactHeaders i) ''stream started'' []
        (RequestHeader conn)) (newLoggedStreamConn l) calls =
       (s2, (newLoggedStreamConn l)\<lparr>sentCount := of_nat (okSends calls),
              receivedCount := of_nat (okReceives calls)\<rparr>)"
    and p: "preserves s s2" and r: "records s2 = records s @ rs"
    and d: "\<forall>r \<in> set rs. level r = LevelDebug"
    by blast
  have "WrapStreamingHandler uni i h elapsed s ctx conn =
      Inr (emit s2 l LevelInfo ''stream completed'' (streamAttrs calls elapsed), err)"
    using init run calls ok
    by (auto simp: WrapStreamingHandler_def Let_def streamAttrs_def GroupValue_counts)
  moreover have "preserves s (emit s2 l LevelInfo ''stream completed'' (streamAttrs calls elapsed))"
    using p preserves_emit by (rule preserves_trans)
  moreover have "records (emit s2 l LevelInfo ''stream completed'' (streamAttrs calls elapsed)) =
      records s @ rs @ [\<lparr>level = LevelInfo, msg = ''stream completed'', scope = withAttrs l,
         attrs = streamAttrs calls elapsed\<rparr>]"
    by (simp add: records_emit r)
  ultimately show ?thesis using d by blast
qed

lemma WrapStreamingHandler_failed:
  assumes init: "initRequestLogger i ctx (connSpec conn) (connPeer conn) = Inr l"
    and run: "h conn = (calls, Some e)"
    and bad: "\<not> Is e IoEOF"
  shows "\<exists>s' rs p. WrapStreamingHandler uni i h elapsed s ctx conn = Inr (s', Some e) \<and>
     preserves s s' \<and> (\<forall>r \<in> set rs. level r = LevelDebug) \<and>
     records s' = records s @ rs @
       [\<lparr>level = (if classifiedCode e < CodeInternal then LevelWarn else LevelError),
         msg = ''stream failed'', scope = withAttrs l,
         attrs = streamAttrs calls elapsed @ [(''error'', KindAny (AnyLoggable (Some p)))]\<rparr>]"
proof -
  from stream_prefix [where s = s and l = l and names = "redactHeaders i" and conn = conn
      and calls = calls]
  obtain s2 rs where calls: "runCalls (logStarted uni s l (redactHeaders i) ''stream started'' []
        (RequestHeader conn)) (newLoggedStreamConn l) calls =
       (s2, (newLoggedStreamConn l)\<lparr>sentCount := of_nat (okSends calls),
              receivedCount := of_nat (okReceives calls)\<rparr>)"
    and p: "preserves s s2" and r: "records s2 = records s @ rs"
    and d: "\<forall>r \<in> set rs. level r = LevelDebug"
    by blast
  from logFailed_effect [of s2 l "''stream failed''" "streamAttrs calls elapsed" e]
  obtain s3 q where f: "logFailed s2 l ''stream failed'' (streamAttrs calls elapsed) e = Inr s3"
    and p3: "preserves s2 s3"
    and r3: "records s3 = records s2 @
       [\<lparr>level = (if classifiedCode e < CodeInternal then LevelWarn else LevelError),
         msg = ''stream failed'', scope = withAttrs l,
         attrs = streamAttrs calls elapsed @ [(''error'', KindAny (AnyLoggable (Some q)))]\<rparr>]"
    by blast
  have "WrapStreamingHandler uni i h elapsed s ctx conn = Inr (s3, Some e)"
    using init run calls bad f [unfolded streamAttrs_def]
    by (simp add: WrapStreamingHandler_def Let_def GroupValue_counts)
  moreover have "preserves s s3" using p p3 by (rule preserves_trans)
  ultimately show ?thesis using r r3 d by auto
qed

lemma WrapStreamingHandler_returns:
  assumes "WrapStreamingHandler uni i h elapsed s ctx conn = Inr (s', err)"
  shows "err = snd (h conn) \<and> preserves s s'"
proof (cases "initRequestLogger i ctx (connSpec conn) (connPeer conn)")
  case (Inl p)
  from WrapStreamingHandler_malformed [OF this, of uni h elapsed s] assms show ?thesis by simp
next
  case (Inr l)
  obtain calls err' where n: "h conn = (calls, err')" by (cases "h conn")
  show ?thesis
  proof (cases "err' = None \<or> (\<exists>e. err' = Some e \<and> Is e IoEOF)")
    case True
    from WrapStreamingHandler_completed [where uni = uni and h = h and elapsed = elapsed and s = s, OF Inr n True]
      assms n
    show ?thesis by auto
  next
    case False
    then obtain e where e: "err' = Some e" and bad: "\<not> Is e IoEOF" by auto
    from WrapStreamingHandler_failed [where uni = uni and h = h and elapsed = elapsed and s = s,
        OF Inr n [unfolded e] bad] assms n e
    show ?thesis by auto
  qed
qed

lemma wellFormed_examples:
  "wellFormed ''/acme.PingService/Ping''" "wellFormed ''/acme.PingService/Stream''"
  by (simp_all add: wellFormed_def TrimPrefix_def HasPrefix_def)

text \<open>
  Claim C8. Whenever \<open>WrapUnary\<close> returns, it returns the response and the error of
  the handler applied to the very request it was given, and whenever
  \<open>WrapStreamingHandler\<close> returns, it returns the handler's error. Every header map and
  every \<open>loggableError\<close> allocated before the call, the request's headers among them, is
  unchanged afterwards. Both wrappers do return when the procedure identifier is well
  formed, as \<open>/service/method\<close> is; for the unary wrapper the handler must not have
  returned a nil response together with a nil error, which the wrapper dereferences.
\<close>

theorem interceptor_transparent:
  "(\<forall>s' res err. WrapUnary uni i h elapsed s ctx req = Inr (s', res, err) \<longrightarrow>
      (res, err) = h req \<and> preserves s s') \<and>
   (wellFormed (Procedure (reqSpec req)) \<and> h req \<noteq> (None, None) \<longrightarrow>
      (\<exists>s'. WrapUnary uni i h elapsed s ctx req = Inr (s', fst (h req), snd (h req)) \<and>
         preserves s s')) \<and>
   (\<forall>s' err. WrapStreamingHandler uni i g elapsed s ctx conn = Inr (s', err) \<longrightarrow>
      err = snd (g conn) \<and> preserves s s') \<and>
   (wellFormed (Procedure (connSpec conn)) \<longrightarrow>
      (\<exists>s'. WrapStreamingHandler uni i g elapsed s ctx conn = Inr (s', snd (g conn)) \<and>
         preserves s s'))"
proof -
  have unary: "(res, err) = h req \<and> preserves s s'"
    if "WrapUnary uni i h elapsed s ctx req = Inr (s', res, err)" for s' res err
    using that by (rule WrapUnary_returns)
  have unary_total: "\<exists>s'. WrapUnary uni i h elapsed s ctx req = Inr (s', fst (h req), snd (h req)) \<and>
      preserves s s'"
    if a: "wellFormed (Procedure (reqSpec req)) \<and> h req \<noteq> (None, None)"
  proof -
    from a obtain l where init: "initRequestLogger i ctx (reqSpec req) (reqPeer req) = Inr l"
      using initRequestLogger_wellFormed [of "reqSpec req" i ctx "reqPeer req"] by blast
    obtain res err where n: "h req = (res, err)" by (cases "h req")
    show ?thesis
    proof (cases err)
      case (Some e)
      from WrapUnary_failure [where uni = uni and h = h and elapsed = elapsed and s = s, OF init n [unfolded Some]]
      show ?thesis using n Some by auto
    next
      case None
      with a n obtain r where r: "res = Some r" by (cases res) auto
      from WrapUnary_success [where uni = uni and h = h and elapsed = elapsed and s = s,
          OF init n [unfolded None r]]
      show ?thesis using n None r by auto
    qed
  qed
  have stream: "err = snd (g conn) \<and> preserves s s'"
    if "WrapStreamingHandler uni i g elapsed s ctx conn = Inr (s', err)" for s' err
    using that by (rule WrapStreamingHandler_returns)
  have stream_total: "\<exists>s'. WrapStreamingHandler uni i g elapsed s ctx conn = Inr (s', snd (g conn)) \<and>
      preserves s s'"
    if a: "wellFormed (Procedure (connSpec conn))"
  proof -
    from a obtain l where init: "initRequestLogger i ctx (connSpec conn) (connPeer conn) = Inr l"
      using initRequestLogger_wellFormed [of "connSpec conn" i ctx "connPeer conn"] by blast
    obtain calls err where n: "g conn = (calls, err)" by (cases "g conn")
    show ?thesis
    proof (cases "err = None \<or> (\<exists>e. err = Some e \<and> Is e IoEOF)")
      case True
      from WrapStreamingHandler_completed [where uni = uni and h = g and elapsed = elapsed and s = s,
          OF init n True]
      show ?thesis using n by auto
    next
      case False
      then obtain e where e: "err = Some e" and bad: "\<not> Is e IoEOF" by auto
      from WrapStreamingHandler_failed [where uni = uni and h = g and elapsed = elapsed and s = s,
          OF init n [unfolded e] bad]
      show ?thesis using n e by auto
    qed
  qed
  from unary unary_total stream stream_total show ?thesis by blast
qed

text \<open>
  The theorem at a unary call that succeeds and at a stream that ends with \<open>io.EOF\<close>,
  with debug logging on: the handler's results come back and the request's header map
  at address 0 is unchanged.
\<close>

theorem interceptor_transparent_witness:
  "wellFormed (Procedure (reqSpec exampleRequest)) \<and>
   (\<lambda>req. (Some exampleResponse, None :: err option)) exampleRequest \<noteq> (None, None) \<and>
   (\<exists>s'. WrapUnary exampleUnicode exampleInterceptor (\<lambda>req. (Some exampleResponse, None)) 5000000
            exampleState () exampleRequest = Inr (s', Some exampleResponse, None) \<and>
         headers s' 0 = Some exampleHeader) \<and>
   wellFormed (Procedure (connSpec exampleConn)) \<and>
   (\<exists>s'. WrapStreamingHandler exampleUnicode exampleInterceptor (\<lambda>conn. (exampleCalls, Some (Sentinel IoEOF)))
            7000000 exampleState () exampleConn = Inr (s', Some (Sentinel IoEOF)) \<and>
         headers s' 0 = Some exampleHeader)"
proof -
  let ?h = "\<lambda>req :: AnyRequest. (Some exampleResponse, None :: err option)"
  let ?g = "\<lambda>conn :: StreamingHandlerConn. (exampleCalls, Some (Sentinel IoEOF))"
  have w1: "wellFormed (Procedure (reqSpec exampleRequest))"
    by (simp add: exampleRequest_def wellFormed_examples)
  have w2: "wellFormed (Procedure (connSpec exampleConn))"
    by (simp add: exampleConn_def wellFormed_examples)
  have ne: "?h exampleRequest \<noteq> (None, None)" by simp
  have keep: "preserves exampleState s' \<Longrightarrow> headers s' 0 = Some exampleHeader" for s'
    by (simp add: preserves_def exampleState_def)
  note t = interceptor_transparent [where uni = exampleUnicode and i = exampleInterceptor and h = ?h and g = ?g
      and s = exampleState and ctx = "()" and req = exampleRequest and conn = exampleConn]
  from t [of 5000000] w1 ne
  have one: "\<exists>s'. WrapUnary exampleUnicode exampleInterceptor ?h 5000000 exampleState () exampleRequest =
        Inr (s', Some exampleResponse, None) \<and> headers s' 0 = Some exampleHeader"
    using keep by auto
  from t [of 7000000] w2
  have two: "\<exists>s'. WrapStreamingHandler exampleUnicode exampleInterceptor ?g 7000000 exampleState () exampleConn =
        Inr (s', Some (Sentinel IoEOF)) \<and> headers s' 0 = Some exampleHeader"
    using keep by auto
  from w1 ne one w2 two show ?thesis by blast
qed

text \<open>
  Claim C5. For a streaming call whose procedure identifier is well formed, as
  \<open>/service/method\<close> is, the wrapper returns and emits, after debug records only, exactly
  one terminal record. When the handler's error is nil or is \<open>io.EOF\<close> in the sense of
  \<open>errors.Is\<close> (the sentinel itself or an error wrapping it), the record is at info
  level with the message \<open>stream completed\<close> and has the two attributes \<open>messages\<close> and
  \<open>duration\<close>, no \<open>error\<close>. Otherwise its message is \<open>stream failed\<close>, at warn or
  error level, and the \<open>error\<close> attribute follows the two. In both cases \<open>messages\<close> is
  the group of the counters \<open>sent\<close> and \<open>received\<close> of the wrapped connection.
\<close>

theorem stream_summary:
  "wellFormed (Procedure (connSpec conn)) \<and> g conn = (calls, err) \<longrightarrow>
     (\<exists>s' rs terminal.
        WrapStreamingHandler uni i g elapsed s ctx conn = Inr (s', err) \<and>
        records s' = records s @ rs @ [terminal] \<and>
        (\<forall>r \<in> set rs. level r = LevelDebug) \<and>
        filter (\<lambda>r. level r \<noteq> LevelDebug) (rs @ [terminal]) = [terminal] \<and>
        take 2 (attrs terminal) =
          [(''messages'',
            KindGroup [(''sent'', KindInt64 (sint (of_nat (okSends calls) :: 64 word))),
                       (''received'', KindInt64 (sint (of_nat (okReceives calls) :: 64 word)))]),
           (''duration'', KindDuration elapsed)] \<and>
        (if err = None \<or> (\<exists>e. err = Some e \<and> Is e IoEOF)
         then level terminal = LevelInfo \<and> msg terminal = ''stream completed'' \<and>
              map fst (attrs terminal) = [''messages'', ''duration'']
         else (level terminal = LevelWarn \<or> level terminal = LevelError) \<and>
              msg terminal = ''stream failed'' \<and>
              map fst (attrs terminal) = [''messages'', ''duration'', ''error'']))"
proof
  assume a: "wellFormed (Procedure (connSpec conn)) \<and> g conn = (calls, err)"
  then obtain l where init: "initRequestLogger i ctx (connSpec conn) (connPeer conn) = Inr l"
    using initRequestLogger_wellFormed [of "connSpec conn" i ctx "connPeer conn"] by blast
  from a have n: "g conn = (calls, err)" by simp
  let ?P = "\<lambda>s' rs terminal.
        WrapStreamingHandler uni i g elapsed s ctx conn = Inr (s', err) \<and>
        records s' = records s @ rs @ [terminal] \<and>
        (\<forall>r \<in> set rs. level r = LevelDebug) \<and>
        filter (\<lambda>r. level r \<noteq> LevelDebug) (rs @ [terminal]) = [terminal] \<and>
        take 2 (attrs terminal) =
          [(''messages'',
            KindGroup [(''sent'', KindInt64 (sint (of_nat (okSends calls) :: 64 word))),
                       (''received'', KindInt64 (sint (of_nat (okReceives calls) :: 64 word)))]),
           (''duration'', KindDuration elapsed)] \<and>
        (if err = None \<or> (\<exists>e. err = Some e \<and> Is e IoEOF)
         then level terminal = LevelInfo \<and> msg terminal = ''stream completed'' \<and>
              map fst (attrs terminal) = [''messages'', ''duration'']
         else (level terminal = LevelWarn \<or> level terminal = LevelError) \<and>
              msg terminal = ''stream failed'' \<and>
              map fst (attrs terminal) = [''messages'', ''duration'', ''error''])"
  show "\<exists>s' rs terminal. ?P s' rs terminal"
  proof (cases "err = None \<or> (\<exists>e. err = Some e \<and> Is e IoEOF)")
    case True
    define terminal where "terminal =
      \<lparr>level = LevelInfo, msg = ''stream completed'', scope = withAttrs l,
       attrs = streamAttrs calls elapsed\<rparr>"
    from WrapStreamingHandler_completed [where uni = uni and h = g and elapsed = elapsed and s = s,
        OF init n True]
    obtain s' rs where run: "WrapStreamingHandler uni i g elapsed s ctx conn = Inr (s', err)"
      and d: "\<forall>r \<in> set rs. level r = LevelDebug"
      and r: "records s' = records s @ rs @ [terminal]"
      unfolding terminal_def by blast
    from d have "filter (\<lambda>r. level r \<noteq> LevelDebug) rs = []"
      by (simp add: filter_empty_conv)
    then have "filter (\<lambda>r. level r \<noteq> LevelDebug) (rs @ [terminal]) = [terminal]"
      by (simp add: terminal_def)
    with run d r True have "?P s' rs terminal"
      by (simp add: terminal_def streamAttrs_def)
    then show ?thesis by blast
  next
    case False
    then obtain e where e: "err = Some e" and bad: "\<not> Is e IoEOF" by auto
    from WrapStreamingHandler_failed [where uni = uni and h = g and elapsed = elapsed and s = s,
        OF init n [unfolded e] bad]
    obtain s' rs p where run: "WrapStreamingHandler uni i g elapsed s ctx conn = Inr (s', Some e)"
      and d: "\<forall>r \<in> set rs. level r = LevelDebug"
      and r: "records s' = records s @ rs @
       [\<lparr>level = (if classifiedCode e < CodeInternal then LevelWarn else LevelError),
         msg = ''stream failed'', scope = withAttrs l,
         attrs = streamAttrs calls elapsed @ [(''error'', KindAny (AnyLoggable (Some p)))]\<rparr>]"
      by blast
    define terminal where "terminal =
       \<lparr>level = (if classifiedCode e < CodeInternal then LevelWarn else LevelError),
         msg = ''stream failed'', scope = withAttrs l,
         attrs = streamAttrs calls elapsed @ [(''error'', KindAny (AnyLoggable (Some p)))]\<rparr>"
    from d have "filter (\<lambda>r. level r \<noteq> LevelDebug) rs = []"
      by (simp add: filter_empty_conv)
    then have "filter (\<lambda>r. level r \<noteq> LevelDebug) (rs @ [terminal]) = [terminal]"
      by (simp add: terminal_def)
    with run d r False e have "?P s' rs terminal"
      by (simp add: terminal_def streamAttrs_def)
    then show ?thesis by blast
  qed
qed

text \<open>
  The theorem at the stream of three successful sends and two successful receives that
  ends with \<open>io.EOF\<close>: one info record \<open>stream completed\<close> with sent 3, received 2 and
  no \<open>error\<close> attribute. At the same stream ending with a plain error: \<open>stream failed\<close>
  with an \<open>error\<close> attribute.
\<close>

theorem stream_summary_witness:
  "wellFormed (Procedure (connSpec exampleConn)) \<and>
   (\<exists>s' rs terminal.
      WrapStreamingHandler exampleUnicode quietInterceptor (\<lambda>conn. (exampleCalls, Some (Sentinel IoEOF))) 7000000
        initial () exampleConn = Inr (s', Some (Sentinel IoEOF)) \<and>
      records s' = rs @ [terminal] \<and>
      filter (\<lambda>r. level r \<noteq> LevelDebug) (rs @ [terminal]) = [terminal] \<and>
      level terminal = LevelInfo \<and> msg terminal = ''stream completed'' \<and>
      take 2 (attrs terminal) =
        [(''messages'', KindGroup [(''sent'', KindInt64 3), (''received'', KindInt64 2)]),
         (''duration'', KindDuration 7000000)] \<and>
      map fst (attrs terminal) = [''messages'', ''duration'']) \<and>
   (\<exists>s' rs terminal.
      WrapStreamingHandler exampleUnicode quietInterceptor (\<lambda>conn. (exampleCalls, Some (New ''disk full''))) 7000000
        initial () exampleConn = Inr (s', Some (New ''disk full'')) \<and>
      records s' = rs @ [terminal] \<and>
      msg terminal = ''stream failed'' \<and>
      map fst (attrs terminal) = [''messages'', ''duration'', ''error''])"
proof -
  let ?g = "\<lambda>conn :: StreamingHandlerConn. (exampleCalls, Some (Sentinel IoEOF))"
  let ?f = "\<lambda>conn :: StreamingHandlerConn. (exampleCalls, Some (New ''disk full''))"
  have w: "wellFormed (Procedure (connSpec exampleConn))"
    by (simp add: exampleConn_def wellFormed_examples)
  have n: "sint (of_nat (okSends exampleCalls) :: 64 word) = 3"
    and m: "sint (of_nat (okReceives exampleCalls) :: 64 word) = 2"
    by (simp_all add: okSends_def okReceives_def exampleCalls_def)
  have hg: "wellFormed (Procedure (connSpec exampleConn)) \<and>
      ?g exampleConn = (exampleCalls, Some (Sentinel IoEOF))"
    using w by simp
  have hf: "wellFormed (Procedure (connSpec exampleConn)) \<and>
      ?f exampleConn = (exampleCalls, Some (New ''disk full''))"
    using w by simp
  from stream_summary [where g = ?g and conn = exampleConn and calls = exampleCalls
      and err = "Some (Sentinel IoEOF)" and uni = exampleUnicode and i = quietInterceptor and elapsed = 7000000
      and s = initial and ctx = "()", THEN mp, OF hg]
  obtain s1 rs1 t1 where
    run1: "WrapStreamingHandler exampleUnicode quietInterceptor ?g 7000000 initial () exampleConn =
        Inr (s1, Some (Sentinel IoEOF))"
    and rec1: "records s1 = records initial @ rs1 @ [t1]"
    and one1: "filter (\<lambda>r. level r \<noteq> LevelDebug) (rs1 @ [t1]) = [t1]"
    and two1: "take 2 (attrs t1) =
          [(''messages'',
            KindGroup [(''sent'', KindInt64 (sint (of_nat (okSends exampleCalls) :: 64 word))),
                       (''received'', KindInt64 (sint (of_nat (okReceives exampleCalls) :: 64 word)))]),
           (''duration'', KindDuration 7000000)]"
    and cond1: "if Some (Sentinel IoEOF) = None \<or> (\<exists>e. Some (Sentinel IoEOF) = Some e \<and> Is e IoEOF)
         then level t1 = LevelInfo \<and> msg t1 = ''stream completed'' \<and>
              map fst (attrs t1) = [''messages'', ''duration'']
         else (level t1 = LevelWarn \<or> level t1 = LevelError) \<and>
              msg t1 = ''stream failed'' \<and>
              map fst (attrs t1) = [''messages'', ''duration'', ''error'']"
    by blast
  from cond1 have done1: "level t1 = LevelInfo" "msg t1 = ''stream completed''"
      "map fst (attrs t1) = [''messages'', ''duration'']"
    by simp_all
  from rec1 have rec1': "records s1 = rs1 @ [t1]" by (simp add: initial_def)
  from two1 have two1': "take 2 (attrs t1) =
        [(''messages'', KindGroup [(''sent'', KindInt64 3), (''received'', KindInt64 2)]),
         (''duration'', KindDuration 7000000)]"
    unfolding n m .
  from stream_summary [where g = ?f and conn = exampleConn and calls = exampleCalls
      and err = "Some (New ''disk full'')" and uni = exampleUnicode and i = quietInterceptor and elapsed = 7000000
      and s = initial and ctx = "()", THEN mp, OF hf]
  obtain s2 rs2 t2 where
    run2: "WrapStreamingHandler exampleUnicode quietInterceptor ?f 7000000 initial () exampleConn =
        Inr (s2, Some (New ''disk full''))"
    and rec2: "records s2 = records initial @ rs2 @ [t2]"
    and cond2: "if Some (New ''disk full'') = None \<or> (\<exists>e. Some (New ''disk full'') = Some e \<and> Is e IoEOF)
         then level t2 = LevelInfo \<and> msg t2 = ''stream completed'' \<and>
              map fst (attrs t2) = [''messages'', ''duration'']
         else (level t2 = LevelWarn \<or> level t2 = LevelError) \<and>
              msg t2 = ''stream failed'' \<and>
              map fst (attrs t2) = [''messages'', ''duration'', ''error'']"
    by blast
  from cond2 have done2: "msg t2 = ''stream failed''"
      "map fst (attrs t2) = [''messages'', ''duration'', ''error'']"
    by simp_all
  from rec2 have rec2': "records s2 = rs2 @ [t2]" by (simp add: initial_def)
  have first: "\<exists>s' rs terminal.
      WrapStreamingHandler exampleUnicode quietInterceptor ?g 7000000 initial () exampleConn =
        Inr (s', Some (Sentinel IoEOF)) \<and>
      records s' = rs @ [terminal] \<and>
      filter (\<lambda>r. level r \<noteq> LevelDebug) (rs @ [terminal]) = [terminal] \<and>
      level terminal = LevelInfo \<and> msg terminal = ''stream completed'' \<and>
      take 2 (attrs terminal) =
        [(''messages'', KindGroup [(''sent'', KindInt64 3), (''received'', KindInt64 2)]),
         (''duration'', KindDuration 7000000)] \<and>
      map fst (attrs terminal) = [''messages'', ''duration'']"
    using run1 rec1' one1 done1 two1'
    by (intro exI [of _ s1] exI [of _ rs1] exI [of _ t1] conjI)
  have second: "\<exists>s' rs terminal.
      WrapStreamingHandler exampleUnicode quietInterceptor ?f 7000000 initial () exampleConn =
        Inr (s', Some (New ''disk full'')) \<and>
      records s' = rs @ [terminal] \<and>
      msg terminal = ''stream failed'' \<and>
      map fst (attrs terminal) = [''messages'', ''duration'', ''error'']"
    using run2 rec2' done2
    by (intro exI [of _ s2] exI [of _ rs2] exI [of _ t2] conjI)
  from w first second show ?thesis by (intro conjI)
qed

text \<open>
  Claim C4, as the code has it. For a unary call whose procedure identifier is well
  formed, as \<open>/service/method\<close> is, and whose handler returns an error, the wrapper
  returns and emits, after debug records only, exactly one summary record
  \<open>request failed\<close>. Its
  level is warn exactly when the classified code is numerically below \<open>CodeInternal\<close>
  (13) and error otherwise. So an error carrying the code internal is logged at error
  level, and so is one carrying unavailable, data-loss or unauthenticated; an
  unrecognized error is classified as unknown, whose code 2 is below 13, and is logged at
  warn level.
\<close>

theorem unary_failure_level:
  "wellFormed (Procedure (reqSpec req)) \<and> h req = (res, Some e) \<longrightarrow>
     (\<exists>s' rs summary.
        WrapUnary uni i h elapsed s ctx req = Inr (s', res, Some e) \<and>
        records s' = records s @ rs @ [summary] \<and>
        (\<forall>r \<in> set rs. level r = LevelDebug) \<and>
        filter (\<lambda>r. level r \<noteq> LevelDebug) (rs @ [summary]) = [summary] \<and>
        msg summary = ''request failed'' \<and>
        (level summary = LevelWarn \<longleftrightarrow> classifiedCode e < CodeInternal) \<and>
        (level summary = LevelError \<longleftrightarrow> \<not> classifiedCode e < CodeInternal) \<and>
        (\<forall>ce. AsConnectError e = Some ce \<and> Code ce = CodeInternal \<longrightarrow>
           level summary = LevelError) \<and>
        (AsConnectError e = None \<and> \<not> Is e ContextCanceled \<and>
         \<not> Is e ContextDeadlineExceeded \<and> \<not> Is e OsErrDeadlineExceeded \<longrightarrow>
           classifiedCode e = CodeUnknown \<and> level summary = LevelWarn))"
proof
  assume a: "wellFormed (Procedure (reqSpec req)) \<and> h req = (res, Some e)"
  then obtain l where init: "initRequestLogger i ctx (reqSpec req) (reqPeer req) = Inr l"
    using initRequestLogger_wellFormed [of "reqSpec req" i ctx "reqPeer req"] by blast
  from a have n: "h req = (res, Some e)" by simp
  from WrapUnary_failure [where uni = uni and h = h and elapsed = elapsed and s = s, OF init n]
  obtain s' rs p where run: "WrapUnary uni i h elapsed s ctx req = Inr (s', res, Some e)"
    and d: "\<forall>r \<in> set rs. level r = LevelDebug"
    and r: "records s' = records s @ rs @
       [\<lparr>level = (if classifiedCode e < CodeInternal then LevelWarn else LevelError),
         msg = ''request failed'', scope = withAttrs l,
         attrs = [(''duration'', KindDuration elapsed)] @
                 sizeAttrs ''request_size'' (reqAny req) @
                 [(''error'', KindAny (AnyLoggable (Some p)))]\<rparr>]"
    by blast
  define summary where "summary =
       \<lparr>level = (if classifiedCode e < CodeInternal then LevelWarn else LevelError),
         msg = ''request failed'', scope = withAttrs l,
         attrs = [(''duration'', KindDuration elapsed)] @
                 sizeAttrs ''request_size'' (reqAny req) @
                 [(''error'', KindAny (AnyLoggable (Some p)))]\<rparr>"
  from d have "filter (\<lambda>r. level r \<noteq> LevelDebug) rs = []"
    by (simp add: filter_empty_conv)
  then have one: "filter (\<lambda>r. level r \<noteq> LevelDebug) (rs @ [summary]) = [summary]"
    by (simp add: summary_def)
  have lw: "level summary = LevelWarn \<longleftrightarrow> classifiedCode e < CodeInternal"
    and le: "level summary = LevelError \<longleftrightarrow> \<not> classifiedCode e < CodeInternal"
    by (simp_all add: summary_def)
  have internal: "\<forall>ce. AsConnectError e = Some ce \<and> Code ce = CodeInternal \<longrightarrow>
      level summary = LevelError"
    using le by (auto simp: classifiedCode_def)
  have "classifiedCode e = CodeUnknown"
    if "AsConnectError e = None \<and> \<not> Is e ContextCanceled \<and>
         \<not> Is e ContextDeadlineExceeded \<and> \<not> Is e OsErrDeadlineExceeded"
    using that by (simp add: classifiedCode_def)
  moreover have "CodeUnknown < CodeInternal"
    by (simp add: CodeUnknown_def CodeInternal_def)
  ultimately have unknown: "AsConnectError e = None \<and> \<not> Is e ContextCanceled \<and>
         \<not> Is e ContextDeadlineExceeded \<and> \<not> Is e OsErrDeadlineExceeded \<longrightarrow>
           classifiedCode e = CodeUnknown \<and> level summary = LevelWarn"
    using lw by auto
  have m: "msg summary = ''request failed''" by (simp add: summary_def)
  from run r [folded summary_def] d one m lw le internal unknown
  show "\<exists>s' rs summary.
        WrapUnary uni i h elapsed s ctx req = Inr (s', res, Some e) \<and>
        records s' = records s @ rs @ [summary] \<and>
        (\<forall>r \<in> set rs. level r = LevelDebug) \<and>
        filter (\<lambda>r. level r \<noteq> LevelDebug) (rs @ [summary]) = [summary] \<and>
        msg summary = ''request failed'' \<and>
        (level summary = LevelWarn \<longleftrightarrow> classifiedCode e < CodeInternal) \<and>
        (level summary = LevelError \<longleftrightarrow> \<not> classifiedCode e < CodeInternal) \<and>
        (\<forall>ce. AsConnectError e = Some ce \<and> Code ce = CodeInternal \<longrightarrow>
           level summary = LevelError) \<and>
        (AsConnectError e = None \<and> \<not> Is e ContextCanceled \<and>
         \<not> Is e ContextDeadlineExceeded \<and> \<not> Is e OsErrDeadlineExceeded \<longrightarrow>
           classifiedCode e = CodeUnknown \<and> level summary = LevelWarn)"
    by (intro exI [of _ s'] exI [of _ rs] exI [of _ summary] conjI)
qed

text \<open>
  The theorem at a handler that returns a connect error with the code internal (error
  level) and at one that returns a plain error (warn level).
\<close>

theorem unary_failure_level_witness:
  "wellFormed (Procedure (reqSpec exampleRequest)) \<and>
   AsConnectError (Connect CodeInternal (Some (New ''database is down''))) =
     Some (ConnectError CodeInternal (Some (New ''database is down''))) \<and>
   (\<exists>s' rs summary.
      WrapUnary exampleUnicode exampleInterceptor (\<lambda>req. (None, Some (Connect CodeInternal (Some (New ''database is down'')))))
        5000000 initial () exampleRequest =
        Inr (s', None, Some (Connect CodeInternal (Some (New ''database is down'')))) \<and>
      records s' = rs @ [summary] \<and>
      filter (\<lambda>r. level r \<noteq> LevelDebug) (rs @ [summary]) = [summary] \<and>
      msg summary = ''request failed'' \<and> level summary = LevelError) \<and>
   AsConnectError (New ''something went wrong'') = None \<and>
   \<not> Is (New ''something went wrong'') ContextCanceled \<and>
   \<not> Is (New ''something went wrong'') ContextDeadlineExceeded \<and>
   \<not> Is (New ''something went wrong'') OsErrDeadlineExceeded \<and>
   (\<exists>s' rs summary.
      WrapUnary exampleUnicode exampleInterceptor (\<lambda>req. (None, Some (New ''something went wrong'')))
        5000000 initial () exampleRequest =
        Inr (s', None, Some (New ''something went wrong'')) \<and>
      records s' = rs @ [summary] \<and>
      filter (\<lambda>r. level r \<noteq> LevelDebug) (rs @ [summary]) = [summary] \<and>
      msg summary = ''request failed'' \<and> level summary = LevelWarn)"
proof -
  let ?ie = "Connect CodeInternal (Some (New ''database is down''))"
  let ?ue = "New ''something went wrong''"
  let ?hi = "\<lambda>req :: AnyRequest. (None :: AnyResponse option, Some ?ie)"
  let ?hu = "\<lambda>req :: AnyRequest. (None :: AnyResponse option, Some ?ue)"
  have w: "wellFormed (Procedure (reqSpec exampleRequest))"
    by (simp add: exampleRequest_def wellFormed_examples)
  have ai: "AsConnectError ?ie = Some (ConnectError CodeInternal (Some (New ''database is down'')))"
    by simp
  have au: "AsConnectError ?ue = None \<and> \<not> Is ?ue ContextCanceled \<and>
      \<not> Is ?ue ContextDeadlineExceeded \<and> \<not> Is ?ue OsErrDeadlineExceeded"
    by simp
  have hi: "wellFormed (Procedure (reqSpec exampleRequest)) \<and> ?hi exampleRequest = (None, Some ?ie)"
    using w by simp
  have hu: "wellFormed (Procedure (reqSpec exampleRequest)) \<and> ?hu exampleRequest = (None, Some ?ue)"
    using w by simp
  from unary_failure_level [where h = ?hi and req = exampleRequest and res = None and e = ?ie
      and uni = exampleUnicode and i = exampleInterceptor and elapsed = 5000000 and s = initial and ctx = "()",
      THEN mp, OF hi]
  obtain s1 rs1 t1 where
    run1: "WrapUnary exampleUnicode exampleInterceptor ?hi 5000000 initial () exampleRequest = Inr (s1, None, Some ?ie)"
    and rec1: "records s1 = records initial @ rs1 @ [t1]"
    and one1: "filter (\<lambda>r. level r \<noteq> LevelDebug) (rs1 @ [t1]) = [t1]"
    and msg1: "msg t1 = ''request failed''"
    and int1: "\<forall>ce. AsConnectError ?ie = Some ce \<and> Code ce = CodeInternal \<longrightarrow>
           level t1 = LevelError"
    by blast
  from int1 ai have lev1: "level t1 = LevelError" by simp
  from rec1 have rec1': "records s1 = rs1 @ [t1]" by (simp add: initial_def)
  from unary_failure_level [where h = ?hu and req = exampleRequest and res = None and e = ?ue
      and uni = exampleUnicode and i = exampleInterceptor and elapsed = 5000000 and s = initial and ctx = "()",
      THEN mp, OF hu]
  obtain s2 rs2 t2 where
    run2: "WrapUnary exampleUnicode exampleInterceptor ?hu 5000000 initial () exampleRequest = Inr (s2, None, Some ?ue)"
    and rec2: "records s2 = records initial @ rs2 @ [t2]"
    and one2: "filter (\<lambda>r. level r \<noteq> LevelDebug) (rs2 @ [t2]) = [t2]"
    and msg2: "msg t2 = ''request failed''"
    and unk2: "AsConnectError ?ue = None \<and> \<not> Is ?ue ContextCanceled \<and>
         \<not> Is ?ue ContextDeadlineExceeded \<and> \<not> Is ?ue OsErrDeadlineExceeded \<longrightarrow>
           classifiedCode ?ue = CodeUnknown \<and> level t2 = LevelWarn"
    by blast
  from unk2 au have lev2: "level t2 = LevelWarn" by blast
  from rec2 have rec2': "records s2 = rs2 @ [t2]" by (simp add: initial_def)
  have first: "\<exists>s' rs summary.
      WrapUnary exampleUnicode exampleInterceptor ?hi 5000000 initial () exampleRequest = Inr (s', None, Some ?ie) \<and>
      records s' = rs @ [summary] \<and>
      filter (\<lambda>r. level r \<noteq> LevelDebug) (rs @ [summary]) = [summary] \<and>
      msg summary = ''request failed'' \<and> level summary = LevelError"
    using run1 rec1' one1 msg1 lev1
    by (intro exI [of _ s1] exI [of _ rs1] exI [of _ t1] conjI)
  have second: "\<exists>s' rs summary.
      WrapUnary exampleUnicode exampleInterceptor ?hu 5000000 initial () exampleRequest = Inr (s', None, Some ?ue) \<and>
      records s' = rs @ [summary] \<and>
      filter (\<lambda>r. level r \<noteq> LevelDebug) (rs @ [summary]) = [summary] \<and>
      msg summary = ''request failed'' \<and> level summary = LevelWarn"
    using run2 rec2' one2 msg2 lev2
    by (intro exI [of _ s2] exI [of _ rs2] exI [of _ t2] conjI)
  from w ai first au second show ?thesis by (intro conjI) simp_all
qed

text \<open>
  Claim C4 as stated fails: a unary call whose handler returns the unrecognized error
  \<open>database exploded\<close>, with debug logging off. The wrapper emits one record, at warn
  level, and none at error level.
\<close>

theorem unary_unrecognized_counterexample:
  "(case WrapUnary exampleUnicode quietInterceptor (\<lambda>req. (None, Some (New ''database exploded''))) 5000000
          initial () exampleRequest of
      Inl p \<Rightarrow> False
    | Inr (s', res, err) \<Rightarrow>
        err = Some (New ''database exploded'') \<and>
        map level (records s') = [LevelWarn] \<and>
        map msg (records s') = [''request failed''] \<and>
        filter (\<lambda>r. level r = LevelError) (records s') = [])"
proof -
  have p: "Procedure (reqSpec exampleRequest) = ''/'' @ ''acme.PingService'' @ ''/'' @ ''Ping''"
    by (simp add: exampleRequest_def)
  have init: "initRequestLogger quietInterceptor () (reqSpec exampleRequest) (reqPeer exampleRequest) =
      Inr \<lparr>withAttrs = requestAttrs ''acme.PingService'' ''Ping'' examplePeer, enabledDebug = False\<rparr>"
    using initRequestLogger_wellformed [OF p, of quietInterceptor "()" "reqPeer exampleRequest"]
    by (simp add: quietInterceptor_def exampleRequest_def)
  have lt: "CodeUnknown < CodeInternal"
    by (simp add: CodeUnknown_def CodeInternal_def)
  show ?thesis
    unfolding WrapUnary_def init
    using lt
    by (simp add: Let_def logStarted_def logFailed_def newLoggableError_def allocLoggable_def
        codeOf_def emit_def NewError_def initial_def)
qed

end
